theory Spec2Isabelle
  imports Complex_Main "HOL-Library.Sublist"
begin

section \<open>Python strings\<close>

text \<open>
  A Python \<open>str\<close> is modelled as a \<open>string\<close>, one \<open>char\<close> per code point; the model
  covers the code points below 256, and the character classes below are Python's
  Unicode tables restricted to that range.
\<close>

definition isspace :: "char \<Rightarrow> bool" where
  \<comment> \<open>\<open>str.isspace\<close> on one character, and the class \<open>\s\<close> of \<open>re\<close>\<close>
  "isspace c =
     (let n = (of_char c :: nat)
      in (9 \<le> n \<and> n \<le> 13) \<or> (28 \<le> n \<and> n \<le> 32) \<or> n = 133 \<or> n = 160)"

definition isword :: "char \<Rightarrow> bool" where
  \<comment> \<open>the class \<open>\w\<close> of \<open>re\<close> on a \<open>str\<close> pattern: alphanumeric or underscore\<close>
  "isword c =
     (let n = (of_char c :: nat)
      in (48 \<le> n \<and> n \<le> 57) \<or> (65 \<le> n \<and> n \<le> 90) \<or> n = 95 \<or> (97 \<le> n \<and> n \<le> 122)
         \<or> n = 170 \<or> n = 178 \<or> n = 179 \<or> n = 181 \<or> n = 185 \<or> n = 186
         \<or> (188 \<le> n \<and> n \<le> 190) \<or> (192 \<le> n \<and> n \<le> 214)
         \<or> (216 \<le> n \<and> n \<le> 246) \<or> (248 \<le> n \<and> n \<le> 255))"

definition lower_char :: "char \<Rightarrow> char" where
  "lower_char c =
     (let n = (of_char c :: nat)
      in if (65 \<le> n \<and> n \<le> 90) \<or> (192 \<le> n \<and> n \<le> 222 \<and> n \<noteq> 215)
         then char_of (n + 32) else c)"

definition lower :: "string \<Rightarrow> string" where
  \<comment> \<open>\<open>s.lower()\<close>\<close>
  "lower s = map lower_char s"

definition strip :: "string \<Rightarrow> string" where
  \<comment> \<open>\<open>s.strip()\<close>: leading and trailing whitespace removed\<close>
  "strip s = rev (dropWhile isspace (rev (dropWhile isspace s)))"

primrec contains :: "string \<Rightarrow> string \<Rightarrow> bool" where
  \<comment> \<open>\<open>contains sub s\<close> is Python's \<open>sub in s\<close>\<close>
  "contains sub [] = (sub = [])"
| "contains sub (c # cs) = (prefix sub (c # cs) \<or> contains sub cs)"

primrec split_on :: "char \<Rightarrow> string \<Rightarrow> string list" where
  \<comment> \<open>\<open>s.split(sep)\<close> for a one-character separator: never empty, fragments may be\<close>
  "split_on sep [] = [[]]"
| "split_on sep (c # cs) =
     (if c = sep then [] # split_on sep cs
      else (case split_on sep cs of
              [] \<Rightarrow> [[c]]
            | x # xs \<Rightarrow> (c # x) # xs))"

primrec join :: "string \<Rightarrow> string list \<Rightarrow> string" where
  \<comment> \<open>\<open>sep.join(xs)\<close>\<close>
  "join sep [] = []"
| "join sep (x # xs) = (if xs = [] then x else x @ sep @ join sep xs)"

section \<open>Extraction of the query identifier\<close>

text \<open>
  \<open>re.search(r"--\s*([\w-]+):", query)\<close> looks for the leftmost position where the
  pattern matches. The classes \<open>\s\<close> and \<open>[\w-]\<close> are disjoint and neither holds the
  colon, so at a given position backtracking out of a greedy quantifier cannot succeed
  where the longest run fails: the attempt at one position is the two longest runs
  followed by a colon. \<open>match_here\<close> is that attempt and gives group 1.
\<close>

definition istoken :: "char \<Rightarrow> bool" where
  \<comment> \<open>the class \<open>[\w-]\<close>\<close>
  "istoken c = (isword c \<or> c = CHR ''-'')"

definition match_here :: "string \<Rightarrow> string option" where
  "match_here s =
     (if prefix ''--'' s then
        (let r = dropWhile isspace (drop 2 s);
             tok = takeWhile istoken r
         in if tok \<noteq> [] \<and> prefix '':'' (dropWhile istoken r) then Some tok else None)
      else None)"

fun re_search :: "string \<Rightarrow> string option" where
  "re_search [] = match_here []"
| "re_search (c # cs) =
     (case match_here (c # cs) of
        Some tok \<Rightarrow> Some tok
      | None \<Rightarrow> re_search cs)"

definition query_identifier :: "string \<Rightarrow> string" where
  \<comment> \<open>\<open>match.group(1).strip() if match else "Unknown Query"\<close>\<close>
  "query_identifier query =
     (case re_search query of
        Some tok \<Rightarrow> strip tok
      | None \<Rightarrow> ''Unknown Query'')"

section \<open>Processes, console and clock\<close>

text \<open>
  The two clients, the file system and the clock are outside the program. They are the
  fields of a \<open>system\<close>, each a function of an opaque world \<open>'w\<close> that it may change.
  Everything the program does to the outside is appended to a trace, in the order in which
  it happens; \<open>subprocess.run\<close> blocks until the process has ended, so a \<open>Run\<close> event holds
  the command together with what came back.
\<close>

record completed_process =
  stdout :: string
  stderr :: string
  returncode :: int

datatype py_exception =
    CalledProcessError string string  \<comment> \<open>message, \<open>e.stderr\<close>\<close>
  | OtherException string             \<comment> \<open>any other subclass of \<open>Exception\<close>, with its message\<close>

datatype exc =
    SystemExit int          \<comment> \<open>\<open>sys.exit(n)\<close>; not a subclass of \<open>Exception\<close>\<close>
  | Raised py_exception

datatype line =
    Plain string            \<comment> \<open>\<open>print(text)\<close>\<close>
  | Colored string string   \<comment> \<open>\<open>print(colored(text, color))\<close>\<close>

datatype event =
    Print line
  | Run "string list" "py_exception + completed_process"
  | Time real
  | Open string "py_exception + string"

record 'w system =
  subprocess_run :: "string list \<Rightarrow> 'w \<Rightarrow> (py_exception + completed_process) \<times> 'w"
  time_time :: "'w \<Rightarrow> real \<times> 'w"
  read_file :: "string \<Rightarrow> 'w \<Rightarrow> (py_exception + string) \<times> 'w"
  format_2f :: "real \<Rightarrow> string"  \<comment> \<open>the format \<open>{:.2f}\<close>\<close>

record 'w state =
  world :: 'w
  trace :: "event list"

type_synonym ('w, 'a) prog = "'w state \<Rightarrow> (exc + 'a) \<times> 'w state"

definition emit :: "event \<Rightarrow> 'w state \<Rightarrow> 'w state" where
  "emit e s = s\<lparr>trace := trace s @ [e]\<rparr>"

definition print :: "line \<Rightarrow> 'w state \<Rightarrow> 'w state" where
  "print l s = emit (Print l) s"

definition str_exception :: "py_exception \<Rightarrow> string" where
  \<comment> \<open>\<open>str(e)\<close>\<close>
  "str_exception e = (case e of CalledProcessError msg err \<Rightarrow> msg | OtherException msg \<Rightarrow> msg)"

definition andthen :: "('w, 'a) prog \<Rightarrow> ('a \<Rightarrow> ('w, 'b) prog) \<Rightarrow> ('w, 'b) prog" where
  \<comment> \<open>one statement after another: an exception of the first skips the second\<close>
  "andthen m f s = (case m s of (Inl e, s') \<Rightarrow> (Inl e, s') | (Inr a, s') \<Rightarrow> f a s')"

definition now :: "'w system \<Rightarrow> 'w state \<Rightarrow> real \<times> 'w state" where
  \<comment> \<open>\<open>time.time()\<close>\<close>
  "now sys s =
     (let (t, w) = time_time sys (world s)
      in (t, emit (Time t) (s\<lparr>world := w\<rparr>)))"

definition open_read :: "'w system \<Rightarrow> string \<Rightarrow> ('w, string) prog" where
  \<comment> \<open>\<open>with open(path, "r") as file: file.read()\<close>\<close>
  "open_read sys path s =
     (let (r, w) = read_file sys path (world s);
          s' = emit (Open path r) (s\<lparr>world := w\<rparr>)
      in case r of Inl e \<Rightarrow> (Inl (Raised e), s') | Inr text \<Rightarrow> (Inr text, s'))"

section \<open>execute_sql\<close>

definition command :: "string \<Rightarrow> string \<Rightarrow> string \<Rightarrow> string option \<Rightarrow> string list" where
  "command sql_tool query database warehouse =
     [sql_tool] @
     (if sql_tool = ''snowsql'' then
        [''--query'', query, ''--dbname'', database, ''--schemaname'', ''PUBLIC'',
         ''-o'', ''output_format=tsv'', ''-o'', ''header=false'',
         ''-o'', ''timing=false'', ''-o'', ''friendly=false''] @
        (case warehouse of
           None \<Rightarrow> []
         | Some w \<Rightarrow> if w \<noteq> [] then [''--warehouse'', w] else [])
      else if sql_tool = ''bendsql'' then [''--query='' @ query, ''-D'', database]
      else [])"

definition error_pattern :: "string \<Rightarrow> string \<Rightarrow> bool" where
  \<comment> \<open>the condition of the second \<open>if\<close>, on \<open>output\<close> and \<open>error\<close>\<close>
  "error_pattern output error =
     (contains ''error'' (lower output) \<or> contains ''error'' (lower error)
      \<or> contains ''unknown function'' (lower output))"

definition execute_sql ::
  "'w system \<Rightarrow> string \<Rightarrow> string \<Rightarrow> string \<Rightarrow> string option \<Rightarrow> ('w, string) prog" where
  "execute_sql sys query sql_tool database warehouse s =
     (let cmd = command sql_tool query database warehouse;
          s1 = print (Plain (''Executing command: '' @ join '' '' cmd)) s;
          (r, w) = subprocess_run sys cmd (world s1);
          s2 = emit (Run cmd r) (s1\<lparr>world := w\<rparr>)
      in case r of
           Inl (CalledProcessError msg err) \<Rightarrow>
             (Inl (Raised (CalledProcessError msg err)),
              print (Colored (sql_tool @ '' command failed: '' @ err) ''red'') s2)
         | Inl (OtherException msg) \<Rightarrow> (Inl (Raised (OtherException msg)), s2)
         | Inr result \<Rightarrow>
             (let output = stdout result; error = stderr result
              in if contains ''DROP DATABASE'' query \<and> contains ''Unknown database'' (output @ error)
                 then (Inr output,
                       print (Plain ''Database doesn't exist, continuing with creation...'') s2)
                 else if error_pattern output error
                 then (let error_message = ''Error detected in command output: '' @
                                             (if output \<noteq> [] then output else error);
                           s3 = print (Colored error_message ''red'') s2
                       in if contains ''DROP DATABASE'' query then (Inr output, s3)
                          else (Inl (SystemExit 1), s3))
                 else (Inr output,
                       print (Plain output)
                         (print (Plain ''Command executed successfully. Output:'') s2))))"

section \<open>Running a script\<close>

fun run_queries ::
  "'w system \<Rightarrow> string \<Rightarrow> string \<Rightarrow> string option \<Rightarrow> string list \<Rightarrow> ('w, unit) prog" where
  \<comment> \<open>the loop \<open>for query in queries\<close> of \<open>execute_sql_scripts\<close>\<close>
  "run_queries sys sql_tool database warehouse [] s = (Inr (), s)"
| "run_queries sys sql_tool database warehouse (query # queries) s =
     (if strip query \<noteq> [] then
        (case execute_sql sys query sql_tool database warehouse s of
           (Inl e, s') \<Rightarrow> (Inl e, s')
         | (Inr _, s') \<Rightarrow> run_queries sys sql_tool database warehouse queries s')
      else run_queries sys sql_tool database warehouse queries s)"

definition execute_sql_scripts ::
  "'w system \<Rightarrow> string \<Rightarrow> string \<Rightarrow> string \<Rightarrow> string option \<Rightarrow> ('w, unit) prog" where
  "execute_sql_scripts sys sql_tool script_path database warehouse s =
     (let s1 = print (Plain (''Executing SQL scripts from: '' @ script_path @ '' using '' @ sql_tool)) s
      in andthen (open_read sys script_path)
           (\<lambda>sql_script. run_queries sys sql_tool database warehouse (split_on CHR '';'' sql_script))
           s1)"

definition fetch_query_results ::
  "'w system \<Rightarrow> string \<Rightarrow> string \<Rightarrow> string \<Rightarrow> string option \<Rightarrow> ('w, string) prog" where
  "fetch_query_results sys query sql_tool database warehouse =
     execute_sql sys query sql_tool database warehouse"

section \<open>The comparison of the two engines\<close>

type_synonym failed_test = "string \<times> string \<times> string"
type_synonym passed_test = "string \<times> real"

fun check_loop ::
  "'w system \<Rightarrow> string \<Rightarrow> string option \<Rightarrow> string list \<Rightarrow> failed_test list \<times> passed_test list
    \<Rightarrow> ('w, failed_test list \<times> passed_test list) prog" where
  \<comment> \<open>the loop \<open>for query in check_queries\<close> of \<open>run_check_sql\<close>, on its two lists\<close>
  "check_loop sys database_name warehouse [] (failed_tests, passed_tests) s =
     (Inr (failed_tests, passed_tests), s)"
| "check_loop sys database_name warehouse (query # queries) (failed_tests, passed_tests) s =
     (if strip query \<noteq> [] then
        (let ident = query_identifier query;
             s1 = print (Colored (''Preparing to run '' @ ident @ ''...'') ''yellow'') s;
             (start_time, s2) = now sys s1
         in case fetch_query_results sys query ''bendsql'' database_name None s2 of
              (Inl e, s3) \<Rightarrow> (Inl e, s3)
            | (Inr bend_result, s3) \<Rightarrow>
                (case fetch_query_results sys query ''snowsql'' database_name warehouse s3 of
                   (Inl e, s4) \<Rightarrow> (Inl e, s4)
                 | (Inr snow_result, s4) \<Rightarrow>
                     (let (end_time, s5) = now sys s4;
                          elapsed_time = end_time - start_time
                      in if bend_result \<noteq> snow_result then
                           check_loop sys database_name warehouse queries
                             (failed_tests @ [(ident, bend_result, snow_result)], passed_tests)
                             (print (Colored (''snowsql:\<newline>'' @ snow_result) ''red'')
                               (print (Colored (''bendsql:\<newline>'' @ bend_result) ''red'')
                                 (print (Plain ''Differences:\<newline>'')
                                   (print (Colored (ident @ '':\<newline>'' @ query) ''red'')
                                     (print (Colored ''DIFFERENCE FOUND\<newline>'' ''red'') s5)))))
                         else
                           check_loop sys database_name warehouse queries
                             (failed_tests, passed_tests @ [(ident, elapsed_time)])
                             (print (Colored bend_result ''green'')
                               (print (Colored (''OK - '' @ ident) ''green'') s5)))))
      else check_loop sys database_name warehouse queries (failed_tests, passed_tests) s)"

definition report_passed :: "'w system \<Rightarrow> passed_test list \<Rightarrow> 'w state \<Rightarrow> 'w state" where
  "report_passed sys passed_tests s =
     (if passed_tests \<noteq> [] then
        foldl (\<lambda>s' (test, elapsed_time).
                 print (Colored (''OK - '' @ test @ '' ('' @ format_2f sys elapsed_time @ ''s)'') ''green'') s')
          (print (Colored ''\<newline>Passed Tests:'' ''green'') s) passed_tests
      else s)"

definition report_failed :: "failed_test list \<Rightarrow> 'w state \<Rightarrow> 'w state" where
  "report_failed failed_tests s =
     (if failed_tests \<noteq> [] then
        foldl (\<lambda>s' (test, bend_result, snow_result).
                 print (Colored (''snowsql result:\<newline>'' @ snow_result) ''red'')
                   (print (Colored (''bendsql result:\<newline>'' @ bend_result) ''red'')
                     (print (Colored (''Test: '' @ test) ''red'') s')))
          (print (Colored ''\<newline>Failed Tests and their differences:'' ''red'') s) failed_tests
      else s)"

definition run_check_sql ::
  "'w system \<Rightarrow> string \<Rightarrow> string option \<Rightarrow> string
    \<Rightarrow> ('w, failed_test list \<times> passed_test list) prog" where
  \<comment> \<open>the source returns nothing; the model returns \<open>failed_tests\<close> and \<open>passed_tests\<close>
      as they are when the function ends\<close>
  "run_check_sql sys database_name warehouse script_path s =
     (let (total_start_time, s1) = now sys s
      in andthen (open_read sys script_path)
           (\<lambda>text.
              andthen (check_loop sys database_name warehouse (split_on CHR '';'' text) ([], []))
                (\<lambda>(failed_tests, passed_tests) s2.
                   (let (total_end_time, s3) = now sys s2;
                        total_elapsed_time = total_end_time - total_start_time;
                        s4 = report_failed failed_tests (report_passed sys passed_tests s3)
                    in (Inr (failed_tests, passed_tests),
                        print (Colored (''\<newline>Total Time: '' @ format_2f sys total_elapsed_time @ ''s'')
                                 ''blue'') s4))))
           s1)"

section \<open>Provisioning and the run\<close>

definition setup_database :: "'w system \<Rightarrow> string \<Rightarrow> string \<Rightarrow> ('w, unit) prog" where
  "setup_database sys database_name sql_tool s =
     (let done = (\<lambda>_ s'. (Inr (), print (Plain (''Database '' @ [CHR 0x27] @ database_name @ [CHR 0x27]
                                                   @ '' has been set up.'')) s'))
      in if sql_tool = ''bendsql'' then
           (let drop_query = ''DROP DATABASE IF EXISTS '' @ database_name @ '';'';
                create_query = ''CREATE DATABASE '' @ database_name @ '';''
            in case execute_sql sys drop_query sql_tool ''default'' None s of
                 (Inl (SystemExit n), s1) \<Rightarrow> (Inl (SystemExit n), s1)
               | (Inl (Raised e), s1) \<Rightarrow>
                   andthen (execute_sql sys create_query sql_tool ''default'' None) done
                     (print (Plain (''Warning: Could not drop database (it may not exist): ''
                                      @ str_exception e)) s1)
               | (Inr _, s1) \<Rightarrow>
                   andthen (execute_sql sys create_query sql_tool ''default'' None) done s1)
         else
           (let drop_query = ''DROP DATABASE IF EXISTS '' @ database_name @ '';'';
                create_query = ''CREATE DATABASE '' @ database_name @ '';''
            in andthen (execute_sql sys drop_query sql_tool database_name None)
                 (\<lambda>_. andthen (execute_sql sys create_query sql_tool database_name None) done)
                 s))"

definition setup_and_execute ::
  "'w system \<Rightarrow> string \<Rightarrow> string \<Rightarrow> string \<Rightarrow> string option \<Rightarrow> ('w, unit) prog" where
  "setup_and_execute sys sql_tool base_sql_dir database_name warehouse =
     (let setup_dir = (if sql_tool = ''bendsql'' then ''bend'' else ''snow'')
      in andthen (setup_database sys database_name sql_tool)
           (\<lambda>_. andthen
                   (execute_sql_scripts sys sql_tool (base_sql_dir @ ''/'' @ setup_dir @ ''/setup.sql'')
                      database_name warehouse)
                   (\<lambda>_. execute_sql_scripts sys sql_tool (base_sql_dir @ ''/action.sql'')
                           database_name warehouse)))"

record args =
  database :: string
  warehouse :: string
  run_check_only :: bool
  test_case :: string   \<comment> \<open>\<open>args.case\<close>\<close>
  runbend :: bool
  runsnow :: bool

definition main :: "'w system \<Rightarrow> args \<Rightarrow> ('w, failed_test list \<times> passed_test list) prog" where
  \<comment> \<open>\<open>main\<close> after \<open>parse_arguments\<close>; the value is that of \<open>run_check_sql\<close>\<close>
  "main sys args s =
     (let base_sql_dir = ''sql/'' @ test_case args;
          database_name = database args;
          wh = Some (warehouse args);
          check_sql_path = base_sql_dir @ ''/check.sql''
      in if run_check_only args then run_check_sql sys database_name wh check_sql_path s
         else
           andthen
             (if runbend args then
                (\<lambda>s'. setup_and_execute sys ''bendsql'' base_sql_dir database_name None
                         (print (Plain ''Setting up and executing scripts for bendsql...'') s'))
              else if runsnow args then
                (\<lambda>s'. setup_and_execute sys ''snowsql'' base_sql_dir database_name wh
                         (print (Plain ''Setting up and executing scripts for snowsql...'') s'))
              else
                (\<lambda>s'. andthen (setup_and_execute sys ''bendsql'' base_sql_dir database_name None)
                         (\<lambda>_. setup_and_execute sys ''snowsql'' base_sql_dir database_name wh)
                         (print (Plain ''Setting up and executing scripts for both bendsql and snowsql...'') s')))
             (\<lambda>_. run_check_sql sys database_name wh check_sql_path)
             s)"

section \<open>Reading a trace\<close>

definition statements :: "string list \<Rightarrow> string list" where
  \<comment> \<open>the fragments that pass the test \<open>if query.strip()\<close> of both loops\<close>
  "statements queries = filter (\<lambda>query. strip query \<noteq> []) queries"

definition since :: "'w state \<Rightarrow> 'w state \<Rightarrow> event list" where
  \<comment> \<open>the events that a run from \<open>s\<close> to \<open>s'\<close> has added\<close>
  "since s s' = drop (length (trace s)) (trace s')"

fun timeline :: "event list \<Rightarrow> event list" where
  \<comment> \<open>the processes, the files read and the clock readings, without the console\<close>
  "timeline [] = []"
| "timeline (Print l # es) = timeline es"
| "timeline (e # es) = e # timeline es"

fun runs :: "event list \<Rightarrow> (string list \<times> (py_exception + completed_process)) list" where
  "runs [] = []"
| "runs (Run cmd r # es) = (cmd, r) # runs es"
| "runs (_ # es) = runs es"

fun outputs :: "event list \<Rightarrow> string list" where
  \<comment> \<open>what each process that ended has written to its standard output\<close>
  "outputs [] = []"
| "outputs (Run cmd (Inr result) # es) = stdout result # outputs es"
| "outputs (_ # es) = outputs es"


type_synonym round = "real \<times> completed_process \<times> completed_process \<times> real"

definition round_events :: "string \<Rightarrow> string option \<Rightarrow> string \<times> round \<Rightarrow> event list" where
  \<comment> \<open>one statement of the comparison whose two processes ended: clock, bendsql, snowsql, clock\<close>
  "round_events database_name wh = (\<lambda>(query, t0, b, sn, t1).
     [Time t0,
      Run (command ''bendsql'' query database_name None) (Inr b),
      Run (command ''snowsql'' query database_name wh) (Inr sn),
      Time t1])"

definition both_commands :: "string \<Rightarrow> string option \<Rightarrow> string \<Rightarrow> string list list" where
  "both_commands database_name wh query =
     [command ''bendsql'' query database_name None, command ''snowsql'' query database_name wh]"

section \<open>The steps of a run\<close>

text \<open>
  The specification describes a run by what its components do in turn: the Provisioner
  drops and creates the database, the Script Runner reads a fixture and runs its
  statements on one engine, the Comparator reads the check script and runs each statement
  on both engines. The definitions below write these descriptions down as lists of steps,
  with the two statements of \<open>setup_database\<close> for the Provisioner; the steps of a trace
  are compared with them.
\<close>

datatype step =
    Reads string string        \<comment> \<open>a file that was opened and read, with its text\<close>
  | Launches "string list"     \<comment> \<open>a process that was run, with its command\<close>

fun steps :: "event list \<Rightarrow> step list" where
  \<comment> \<open>the files read and the processes run, in the order in which it happened\<close>
  "steps [] = []"
| "steps (Open path (Inr text) # es) = Reads path text # steps es"
| "steps (Run cmd r # es) = Launches cmd # steps es"
| "steps (_ # es) = steps es"

fun texts_read :: "step list \<Rightarrow> string list" where
  "texts_read [] = []"
| "texts_read (Reads path text # st) = text # texts_read st"
| "texts_read (_ # st) = texts_read st"

definition provision_steps :: "string \<Rightarrow> string \<Rightarrow> step list" where
  \<comment> \<open>Provisioner: the database is dropped, then created\<close>
  "provision_steps sql_tool database_name =
     (let connection = (if sql_tool = ''bendsql'' then ''default'' else database_name)
      in [Launches (command sql_tool (''DROP DATABASE IF EXISTS '' @ database_name @ '';'') connection None),
          Launches (command sql_tool (''CREATE DATABASE '' @ database_name @ '';'') connection None)])"

definition script_steps :: "string \<Rightarrow> string \<Rightarrow> string \<Rightarrow> string \<Rightarrow> string option \<Rightarrow> step list" where
  \<comment> \<open>Script Runner: the fixture is read, then each of its statements is run on the one engine\<close>
  "script_steps sql_tool path text database_name wh =
     Reads path text #
     map (\<lambda>query. Launches (command sql_tool query database_name wh))
       (statements (split_on CHR '';'' text))"

definition pipeline_steps ::
  "string \<Rightarrow> string \<Rightarrow> string \<Rightarrow> string option \<Rightarrow> string \<Rightarrow> string \<Rightarrow> step list" where
  \<comment> \<open>the pipeline of one engine: Provisioner, then the setup fixture, then the action fixture\<close>
  "pipeline_steps sql_tool base_sql_dir database_name wh setup_text action_text =
     provision_steps sql_tool database_name
     @ script_steps sql_tool
         (base_sql_dir @ ''/'' @ (if sql_tool = ''bendsql'' then ''bend'' else ''snow'') @ ''/setup.sql'')
         setup_text database_name wh
     @ script_steps sql_tool (base_sql_dir @ ''/action.sql'') action_text database_name wh"

definition comparator_steps :: "string \<Rightarrow> string \<Rightarrow> string \<Rightarrow> string option \<Rightarrow> step list" where
  \<comment> \<open>Comparator: the check script is read, then each statement is run on bendsql and on snowsql\<close>
  "comparator_steps path text database_name wh =
     Reads path text #
     concat (map (\<lambda>query. map Launches (both_commands database_name wh query))
               (statements (split_on CHR '';'' text)))"

definition mode_steps :: "args \<Rightarrow> string \<Rightarrow> string \<Rightarrow> string \<Rightarrow> string \<Rightarrow> string \<Rightarrow> step list" where
  \<comment> \<open>Run Orchestrator: the pipeline of the mode, for the texts of the fixtures in the order
      in which they are read (\<open>x\<close>, \<open>y\<close> setup and action of the first engine, \<open>x'\<close>, \<open>y'\<close>
      those of the second, \<open>c\<close> the check script)\<close>
  "mode_steps a x y x' y' c =
     (let base = ''sql/'' @ test_case a;
          db = database a;
          wh = Some (warehouse a);
          comparison = comparator_steps (base @ ''/check.sql'') c db wh
      in if run_check_only a then comparison
         else if runbend a then pipeline_steps ''bendsql'' base db None x y @ comparison
         else if runsnow a then pipeline_steps ''snowsql'' base db wh x y @ comparison
         else pipeline_steps ''bendsql'' base db None x y
              @ pipeline_steps ''snowsql'' base db wh x' y' @ comparison)"

section \<open>Concrete systems\<close>

text \<open>
  A system for running the model on fixed inputs: the answer of a process depends on its
  command only, every file can be read, and the clock counts its own readings.
\<close>

definition scripted ::
  "(string list \<Rightarrow> py_exception + completed_process) \<Rightarrow> (string \<Rightarrow> string) \<Rightarrow> nat system" where
  "scripted respond files =
     \<lparr>subprocess_run = (\<lambda>cmd w. (respond cmd, w)),
      time_time = (\<lambda>w. (real w, Suc w)),
      read_file = (\<lambda>path w. (Inr (files path), w)),
      format_2f = (\<lambda>t. [])\<rparr>"

definition start :: "nat state" where
  "start = \<lparr>world = 0, trace = []\<rparr>"

definition says :: "string \<Rightarrow> string \<Rightarrow> py_exception + completed_process" where
  \<comment> \<open>a process that ends with these two texts and the exit code 0\<close>
  "says out err = Inr \<lparr>stdout = out, stderr = err, returncode = 0\<rparr>"

definition drop_raises :: "string list \<Rightarrow> py_exception + completed_process" where
  \<comment> \<open>launching the drop of the database \<open>db\<close> raises; every other process ends silently\<close>
  "drop_raises cmd =
     (if cmd = [''bendsql'', ''--query=DROP DATABASE IF EXISTS db;'', ''-D'', ''default'']
      then Inl (OtherException ''no such database'') else says [] [])"


definition fixtures :: "string \<Rightarrow> string" where
  \<comment> \<open>the fixture files of the case \<open>c\<close>\<close>
  "fixtures path =
     (if path = ''sql/c/bend/setup.sql'' then ''CREATE TABLE t(a INT);''
      else if path = ''sql/c/snow/setup.sql'' then ''CREATE TABLE t(a NUMBER);''
      else if path = ''sql/c/action.sql'' then ''INSERT INTO t VALUES (1);''
      else ''-- Q1: rows\<newline>SELECT a FROM t;'')"

definition silent :: "nat system" where
  \<comment> \<open>the fixture files above, and engines that answer nothing to anything\<close>
  "silent = scripted (\<lambda>cmd. says [] []) fixtures"

definition default_run :: args where
  "default_run = \<lparr>database = ''db'', warehouse = ''wh'', run_check_only = False,
                   test_case = ''c'', runbend = False, runsnow = False\<rparr>"



section \<open>Facts about the string functions\<close>

lemma contains_iff: "contains sub s \<longleftrightarrow> (\<exists>pre post. s = pre @ sub @ post)"
proof (induction s)
  case Nil
  then show ?case by auto
next
  case (Cons c cs)
  show ?case
  proof
    assume "contains sub (c # cs)"
    then consider "prefix sub (c # cs)" | "contains sub cs" by auto
    then show "\<exists>pre post. c # cs = pre @ sub @ post"
    proof cases
      case 1
      then obtain post where "c # cs = sub @ post" by (auto simp: prefix_def)
      then have "c # cs = [] @ sub @ post" by simp
      then show ?thesis by blast
    next
      case 2
      with Cons.IH obtain pre post where "cs = pre @ sub @ post" by blast
      then have "c # cs = (c # pre) @ sub @ post" by simp
      then show ?thesis by blast
    qed
  next
    assume "\<exists>pre post. c # cs = pre @ sub @ post"
    then obtain pre post where eq: "c # cs = pre @ sub @ post" by blast
    show "contains sub (c # cs)"
    proof (cases pre)
      case Nil
      with eq have "prefix sub (c # cs)" by (simp add: prefix_def)
      then show ?thesis by simp
    next
      case (Cons p ps)
      with eq have "cs = ps @ sub @ post" by simp
      with Cons.IH have "contains sub cs" by blast
      then show ?thesis by simp
    qed
  qed
qed

lemma istoken_not_space: "istoken c \<Longrightarrow> \<not> isspace c"
  by (auto simp: istoken_def isword_def isspace_def Let_def)

lemma colon_not_token: "\<not> istoken CHR '':''"
  by (simp add: istoken_def isword_def)

lemma strip_token: 
  assumes "list_all istoken tok" shows "strip tok = tok"
proof (cases tok)
  case Nil
  then show ?thesis by (simp add: strip_def)
next
  case (Cons c cs)
  with assms have h: "\<not> isspace (hd tok)" by (simp add: istoken_not_space)
  from Cons assms have l: "\<not> isspace (last tok)"
    by (metis istoken_not_space last_in_set list.distinct(1) list_all_iff)
  from Cons h have 1: "dropWhile isspace tok = tok" by simp
  from Cons l have 2: "dropWhile isspace (rev tok) = rev tok"
    by (metis hd_rev dropWhile_eq_self_iff)
  show ?thesis by (simp add: strip_def 1 2)
qed

lemma match_here_intro:
  assumes "list_all isspace ws" "tok \<noteq> []" "list_all istoken tok"
  shows "match_here (''--'' @ ws @ tok @ '':'' @ rest) = Some tok"
proof -
  obtain c cs where tok: "tok = c # cs" using assms(2) by (cases tok) auto
  with assms(3) have c: "\<not> isspace c" by (simp add: istoken_not_space)
  have 1: "dropWhile isspace (ws @ tok @ CHR '':'' # rest) = tok @ CHR '':'' # rest"
    using assms(1) c tok by (simp add: dropWhile_append2 list_all_iff)
  have 2: "takeWhile istoken (tok @ CHR '':'' # rest) = tok"
    using assms(3) colon_not_token by (simp add: takeWhile_append2 list_all_iff)
  have 3: "dropWhile istoken (tok @ CHR '':'' # rest) = CHR '':'' # rest"
    using assms(3) colon_not_token by (simp add: dropWhile_append2 list_all_iff)
  show ?thesis
    using assms(2) by (simp add: match_here_def 1 2 3 Let_def)
qed

lemma match_here_elim:
  assumes "match_here s = Some tok"
  shows "\<exists>ws rest. s = ''--'' @ ws @ tok @ '':'' @ rest \<and> list_all isspace ws \<and> tok \<noteq> []
           \<and> list_all istoken tok"
proof -
  define r where "r = dropWhile isspace (drop 2 s)"
  from assms have p: "prefix ''--'' s" and t: "tok = takeWhile istoken r" and ne: "tok \<noteq> []"
    and c: "prefix '':'' (dropWhile istoken r)"
    by (auto simp: match_here_def Let_def r_def split: if_splits)
  from p have s: "s = ''--'' @ drop 2 s" by (auto simp: prefix_def)
  have d: "drop 2 s = takeWhile isspace (drop 2 s) @ r" by (simp add: r_def)
  from c obtain rest where rest: "dropWhile istoken r = '':'' @ rest" by (auto simp: prefix_def)
  have "r = tok @ dropWhile istoken r" by (simp add: t)
  with rest have r: "r = tok @ '':'' @ rest" by simp
  have "s = ''--'' @ takeWhile isspace (drop 2 s) @ tok @ '':'' @ rest"
    using s d r by metis
  moreover have "list_all isspace (takeWhile isspace (drop 2 s))"
    by (simp add: list_all_iff) (meson set_takeWhileD)
  moreover have "list_all istoken tok"
    unfolding t by (simp add: list_all_iff) (meson set_takeWhileD)
  ultimately show ?thesis using ne by blast
qed

lemma re_search_Some:
  "re_search q = Some tok \<Longrightarrow> \<exists>pre. match_here (drop (length pre) q) = Some tok \<and> q = pre @ drop (length pre) q"
proof (induction q)
  case Nil
  then have "match_here (drop (length ([]::string)) []) = Some tok" by simp
  then show ?case by (metis append_Nil drop0 list.size(3))
next
  case (Cons c cs)
  show ?case
  proof (cases "match_here (c # cs)")
    case (Some t)
    with Cons.prems have "match_here (drop (length ([]::string)) (c # cs)) = Some tok" by simp
    then show ?thesis by (metis append_Nil drop0 list.size(3))
  next
    case None
    with Cons.prems have "re_search cs = Some tok" by simp
    with Cons.IH obtain pre where "match_here (drop (length pre) cs) = Some tok" "cs = pre @ drop (length pre) cs" by blast
    then have "match_here (drop (length (c # pre)) (c # cs)) = Some tok \<and> c # cs = (c # pre) @ drop (length (c # pre)) (c # cs)" by simp
    then show ?thesis by blast
  qed
qed

lemma re_search_None: "re_search q = None \<longleftrightarrow> (\<forall>i. match_here (drop i q) = None)"
proof (induction q)
  case Nil
  then show ?case by simp
next
  case (Cons c cs)
  show ?case
  proof (cases "match_here (c # cs)")
    case (Some t)
    then have "match_here (drop 0 (c # cs)) \<noteq> None" by simp
    with Some show ?thesis by (metis option.distinct(1) re_search.simps(2) option.simps(5))
  next
    case None
    have "(\<forall>i. match_here (drop i (c # cs)) = None) \<longleftrightarrow> (\<forall>i. match_here (drop i cs) = None)"
    proof
      assume a: "\<forall>i. match_here (drop i (c # cs)) = None"
      show "\<forall>i. match_here (drop i cs) = None"
      proof
        fix i from a have "match_here (drop (Suc i) (c # cs)) = None" by blast
        then show "match_here (drop i cs) = None" by simp
      qed
    next
      assume a: "\<forall>i. match_here (drop i cs) = None"
      show "\<forall>i. match_here (drop i (c # cs)) = None"
      proof
        fix i show "match_here (drop i (c # cs)) = None"
          using a None by (cases i) auto
      qed
    qed
    with None Cons.IH show ?thesis by simp
  qed
qed

lemma re_search_first:
  "match_here (drop (length pre) (pre @ m)) = Some tok \<Longrightarrow>
   \<forall>j<length pre. match_here (drop j (pre @ m)) = None \<Longrightarrow> re_search (pre @ m) = Some tok"
proof (induction pre)
  case Nil
  then show ?case by (cases m) auto
next
  case (Cons c cs)
  from Cons.prems(2) have 0: "match_here (drop 0 ((c # cs) @ m)) = None" by blast
  have "\<forall>j<length cs. match_here (drop j (cs @ m)) = None"
  proof (intro allI impI)
    fix j assume "j < length cs"
    then have "Suc j < length (c # cs)" by simp
    with Cons.prems(2) have "match_here (drop (Suc j) ((c # cs) @ m)) = None" by blast
    then show "match_here (drop j (cs @ m)) = None" by simp
  qed
  with Cons.IH Cons.prems(1) have "re_search (cs @ m) = Some tok" by simp
  with 0 show ?case by simp
qed

section \<open>Facts about traces\<close>

lemma timeline_append: "timeline (xs @ ys) = timeline xs @ timeline ys"
proof (induction xs)
  case (Cons e es)
  then show ?case by (cases e) simp_all
qed simp

lemma runs_append: "runs (xs @ ys) = runs xs @ runs ys"
  by (induction xs rule: runs.induct) auto


lemma runs_timeline: "runs (timeline es) = runs es"
proof (induction es)
  case (Cons e es)
  then show ?case by (cases e) simp_all
qed simp


lemma since_append: "trace s' = trace s @ es \<Longrightarrow> since s s' = es"
  by (simp add: since_def)

lemma execute_sql_trace:
  assumes "execute_sql sys q t d w s = (r, s')"
  shows "\<exists>es. trace s' = trace s @ es \<and>
           timeline es = [Run (command t q d w) (fst (subprocess_run sys (command t q d w) (world s)))]"
  using assms
  by (auto simp: execute_sql_def Let_def print_def emit_def
           split: prod.splits sum.splits py_exception.splits if_splits)

lemma execute_sql_Inr:
  assumes "execute_sql sys q t d w s = (Inr out, s')"
  shows "\<exists>cp. fst (subprocess_run sys (command t q d w) (world s)) = Inr cp \<and> stdout cp = out"
  using assms
  by (auto simp: execute_sql_def Let_def print_def emit_def
           split: prod.splits sum.splits py_exception.splits if_splits)

lemma execute_sql_Inl:
  assumes "execute_sql sys q t d w s = (Inl e, s')"
  shows "case fst (subprocess_run sys (command t q d w) (world s)) of
           Inl pe \<Rightarrow> e = Raised pe
         | Inr cp \<Rightarrow> e = SystemExit 1 \<and> error_pattern (stdout cp) (stderr cp)
                      \<and> \<not> contains ''DROP DATABASE'' q"
  using assms
  by (auto simp: execute_sql_def Let_def print_def emit_def
           split: prod.splits sum.splits py_exception.splits if_splits)


lemma now_trace: "now sys s = (t, s') \<Longrightarrow> trace s' = trace s @ [Time t]"
  by (auto simp: now_def emit_def Let_def split: prod.splits)

lemma print_trace: "trace (print l s) = trace s @ [Print l]"
  by (simp add: print_def emit_def)

lemma check_loop_blank:
  "strip q = [] \<Longrightarrow> check_loop sys db wh (q # qs) (f0, p0) s = check_loop sys db wh qs (f0, p0) s"
  by simp

lemma check_loop_step:
  assumes run: "check_loop sys db wh (q # qs) (f0, p0) s = (r, s')"
    and q: "strip q \<noteq> []"
  shows "(\<exists>e es. r = Inl e \<and> trace s' = trace s @ es
            \<and> runs es \<noteq> [] \<and> prefix (map fst (runs es)) (both_commands db wh q)
            \<and> (case snd (last (runs es)) of
                  Inl pe \<Rightarrow> e = Raised pe
                | Inr cp \<Rightarrow> e = SystemExit 1 \<and> error_pattern (stdout cp) (stderr cp)))
       \<or> (\<exists>s6 es t0 b sn t1. trace s6 = trace s @ es
            \<and> timeline es = round_events db wh (q, t0, b, sn, t1)
            \<and> check_loop sys db wh qs
                 (if stdout b \<noteq> stdout sn
                  then (f0 @ [(query_identifier q, stdout b, stdout sn)], p0)
                  else (f0, p0 @ [(query_identifier q, t1 - t0)])) s6 = (r, s'))"
proof -
  obtain t0 s2 where n0: "now sys (print (Colored (''Preparing to run '' @ query_identifier q @ ''...'') ''yellow'') s) = (t0, s2)"
    by (cases "now sys (print (Colored (''Preparing to run '' @ query_identifier q @ ''...'') ''yellow'') s)")
  have tr2: "trace s2 = trace s @ [Print (Colored (''Preparing to run '' @ query_identifier q @ ''...'') ''yellow''), Time t0]"
    using now_trace[OF n0] by (simp add: print_trace)
  define cb where "cb = command ''bendsql'' q db None"
  define cs where "cs = command ''snowsql'' q db wh"
  obtain rb s3 where eb: "execute_sql sys q ''bendsql'' db None s2 = (rb, s3)"
    by (cases "execute_sql sys q ''bendsql'' db None s2")
  define xb where "xb = fst (subprocess_run sys cb (world s2))"
  from execute_sql_trace[OF eb] obtain es3 where tr3: "trace s3 = trace s2 @ es3"
    and tl3: "timeline es3 = [Run cb xb]" by (auto simp: cb_def xb_def)
  show ?thesis
  proof (cases rb)
    case (Inl e)
    with run q n0 eb have r: "r = Inl e" "s' = s3"
      by (simp_all add: fetch_query_results_def Let_def)
    have "runs (timeline es3) = [(cb, xb)]" by (simp add: tl3)
    then have ru: "runs es3 = [(cb, xb)]" by (simp add: runs_timeline)
    have fail: "case xb of Inl pe \<Rightarrow> e = Raised pe
                | Inr cp \<Rightarrow> e = SystemExit 1 \<and> error_pattern (stdout cp) (stderr cp)"
      using execute_sql_Inl[of sys q "''bendsql''" db None s2 e s3] eb Inl
      by (auto simp: cb_def xb_def split: sum.splits)
    have "trace s' = trace s @ ([Print (Colored (''Preparing to run '' @ query_identifier q @ ''...'') ''yellow''), Time t0] @ es3)"
      using r tr2 tr3 by simp
    moreover have "runs ([Print (Colored (''Preparing to run '' @ query_identifier q @ ''...'') ''yellow''), Time t0] @ es3) = [(cb, xb)]"
      using ru by simp
    ultimately show ?thesis
      using r fail by (intro disjI1 exI[of _ e] exI[of _ "[Print (Colored (''Preparing to run '' @ query_identifier q @ ''...'') ''yellow''), Time t0] @ es3"])
        (simp add: both_commands_def cb_def)
  next
    case (Inr bend_result)
    from execute_sql_Inr[of sys q "''bendsql''" db None s2 bend_result s3] eb Inr
    obtain b where xb: "xb = Inr b" and outb: "stdout b = bend_result"
      by (auto simp: cb_def xb_def)
    obtain rs s4 where es: "execute_sql sys q ''snowsql'' db wh s3 = (rs, s4)"
      by (cases "execute_sql sys q ''snowsql'' db wh s3")
    define xs where "xs = fst (subprocess_run sys cs (world s3))"
    from execute_sql_trace[OF es] obtain es4 where tr4: "trace s4 = trace s3 @ es4"
      and tl4: "timeline es4 = [Run cs xs]" by (auto simp: cs_def xs_def)
    show ?thesis
    proof (cases rs)
      case (Inl e)
      with run q n0 eb es Inr have r: "r = Inl e" "s' = s4"
        by (simp_all add: fetch_query_results_def Let_def)
      define es' where "es' = [Print (Colored (''Preparing to run '' @ query_identifier q @ ''...'') ''yellow''), Time t0] @ es3 @ es4"
      have "runs (timeline es') = [(cb, xb), (cs, xs)]"
        by (simp add: es'_def timeline_append tl3 tl4)
      then have ru: "runs es' = [(cb, xb), (cs, xs)]" by (simp add: runs_timeline)
      have fail: "case xs of Inl pe \<Rightarrow> e = Raised pe
                  | Inr cp \<Rightarrow> e = SystemExit 1 \<and> error_pattern (stdout cp) (stderr cp)"
        using execute_sql_Inl[of sys q "''snowsql''" db wh s3 e s4] es Inl
        by (auto simp: cs_def xs_def split: sum.splits)
      have "trace s' = trace s @ es'"
        using r tr2 tr3 tr4 by (simp add: es'_def)
      then show ?thesis
        using r fail ru by (intro disjI1 exI[of _ e] exI[of _ es'])
          (simp add: both_commands_def cb_def cs_def)
    next
      case (Inr snow_result)
      from execute_sql_Inr[of sys q "''snowsql''" db wh s3 snow_result s4] es Inr
      obtain sn where xs: "xs = Inr sn" and outs: "stdout sn = snow_result"
        by (auto simp: cs_def xs_def)
      obtain t1 s5 where n1: "now sys s4 = (t1, s5)" by (cases "now sys s4")
      have tr5: "trace s5 = trace s4 @ [Time t1]" by (rule now_trace[OF n1])
      define s6 where "s6 = (if bend_result \<noteq> snow_result then
           (print (Colored (''snowsql:\<newline>'' @ snow_result) ''red'')
             (print (Colored (''bendsql:\<newline>'' @ bend_result) ''red'')
               (print (Plain ''Differences:\<newline>'')
                 (print (Colored (query_identifier q @ '':\<newline>'' @ q) ''red'')
                   (print (Colored ''DIFFERENCE FOUND\<newline>'' ''red'') s5)))))
           else (print (Colored bend_result ''green'')
                  (print (Colored (''OK - '' @ query_identifier q) ''green'') s5)))"
      obtain ps where tr6: "trace s6 = trace s5 @ ps" and tlp: "timeline ps = []"
        by (cases "bend_result \<noteq> snow_result") (auto simp: s6_def print_trace)
      define es' where "es' = [Print (Colored (''Preparing to run '' @ query_identifier q @ ''...'') ''yellow''), Time t0] @ es3 @ es4 @ [Time t1] @ ps"
      have tr: "trace s6 = trace s @ es'"
        using tr2 tr3 tr4 tr5 tr6 by (simp add: es'_def)
      have tl: "timeline es' = round_events db wh (q, t0, b, sn, t1)"
        by (simp add: es'_def timeline_append tl3 tl4 tlp round_events_def xb xs cb_def cs_def)
      have rec: "check_loop sys db wh qs
                 (if stdout b \<noteq> stdout sn
                  then (f0 @ [(query_identifier q, stdout b, stdout sn)], p0)
                  else (f0, p0 @ [(query_identifier q, t1 - t0)])) s6 = (r, s')"
      proof (cases "bend_result = snow_result")
        case True
        with run q n0 eb es \<open>rb = Inr bend_result\<close> Inr n1 show ?thesis
          by (simp add: fetch_query_results_def outb outs s6_def Let_def)
      next
        case False
        with run q n0 eb es \<open>rb = Inr bend_result\<close> Inr n1 show ?thesis
          by (simp add: fetch_query_results_def outb outs s6_def Let_def)
      qed
      show ?thesis
        using tr tl rec by blast
    qed
  qed
qed



lemma outputs_round_events:
  "outputs (round_events db wh (q, t0, b, sn, t1)) = [stdout b, stdout sn]"
  by (simp add: round_events_def)

lemma check_loop_Inr:
  "check_loop sys db wh qs (f0, p0) s = (Inr (f, p), s') \<Longrightarrow>
   \<exists>es obs. trace s' = trace s @ es \<and> length obs = length (statements qs)
     \<and> timeline es = concat (map (round_events db wh) (zip (statements qs) obs))
     \<and> f = f0 @ map (\<lambda>(q, t0, b, sn, t1). (query_identifier q, stdout b, stdout sn))
                  (filter (\<lambda>(q, t0, b, sn, t1). stdout b \<noteq> stdout sn) (zip (statements qs) obs))
     \<and> p = p0 @ map (\<lambda>(q, t0, b, sn, t1). (query_identifier q, t1 - t0))
                  (filter (\<lambda>(q, t0, b, sn, t1). stdout b = stdout sn) (zip (statements qs) obs))"
proof (induction qs arbitrary: f0 p0 s)
  case Nil
  then have "trace s' = trace s @ []" "f = f0" "p = p0" by simp_all
  then show ?case by (intro exI[of _ "[]"]) (simp add: statements_def)
next
  case (Cons q qs)
  show ?case
  proof (cases "strip q = []")
    case True
    with Cons.prems have "check_loop sys db wh qs (f0, p0) s = (Inr (f, p), s')" by simp
    from Cons.IH[OF this] True show ?thesis by (simp add: statements_def)
  next
    case False
    from check_loop_step[OF Cons.prems False]
    obtain s6 es1 t0 b sn t1 where tr1: "trace s6 = trace s @ es1"
      and tl1: "timeline es1 = round_events db wh (q, t0, b, sn, t1)"
      and rec: "check_loop sys db wh qs
                 (if stdout b \<noteq> stdout sn
                  then (f0 @ [(query_identifier q, stdout b, stdout sn)], p0)
                  else (f0, p0 @ [(query_identifier q, t1 - t0)])) s6 = (Inr (f, p), s')"
      by auto
    have st: "statements (q # qs) = q # statements qs" using False by (simp add: statements_def)
    show ?thesis
    proof (cases "stdout b \<noteq> stdout sn")
      case True
      with rec have "check_loop sys db wh qs (f0 @ [(query_identifier q, stdout b, stdout sn)], p0) s6
                      = (Inr (f, p), s')" by simp
      from Cons.IH[OF this] obtain es2 obs where
        a: "trace s' = trace s6 @ es2" "length obs = length (statements qs)"
           "timeline es2 = concat (map (round_events db wh) (zip (statements qs) obs))"
        and fe: "f = (f0 @ [(query_identifier q, stdout b, stdout sn)]) @ map (\<lambda>(q, t0, b, sn, t1). (query_identifier q, stdout b, stdout sn))
                  (filter (\<lambda>(q, t0, b, sn, t1). stdout b \<noteq> stdout sn) (zip (statements qs) obs))"
        and pe: "p = p0 @ map (\<lambda>(q, t0, b, sn, t1). (query_identifier q, t1 - t0))
                  (filter (\<lambda>(q, t0, b, sn, t1). stdout b = stdout sn) (zip (statements qs) obs))"
        by blast
      show ?thesis
        using a fe pe tr1 tl1 True st
        by (intro exI[of _ "es1 @ es2"] exI[of _ "(t0, b, sn, t1) # obs"])
           (simp add: timeline_append)
    next
      case False
      with rec have "check_loop sys db wh qs (f0, p0 @ [(query_identifier q, t1 - t0)]) s6
                      = (Inr (f, p), s')" by simp
      from Cons.IH[OF this] obtain es2 obs where
        a: "trace s' = trace s6 @ es2" "length obs = length (statements qs)"
           "timeline es2 = concat (map (round_events db wh) (zip (statements qs) obs))"
        and fe: "f = f0 @ map (\<lambda>(q, t0, b, sn, t1). (query_identifier q, stdout b, stdout sn))
                  (filter (\<lambda>(q, t0, b, sn, t1). stdout b \<noteq> stdout sn) (zip (statements qs) obs))"
        and pe: "p = (p0 @ [(query_identifier q, t1 - t0)]) @ map (\<lambda>(q, t0, b, sn, t1). (query_identifier q, t1 - t0))
                  (filter (\<lambda>(q, t0, b, sn, t1). stdout b = stdout sn) (zip (statements qs) obs))"
        by blast
      show ?thesis
        using a fe pe tr1 tl1 False st
        by (intro exI[of _ "es1 @ es2"] exI[of _ "(t0, b, sn, t1) # obs"])
           (simp add: timeline_append)
    qed
  qed
qed


section \<open>The identifier of a statement\<close>

lemma no_match_without_hyphen:
  assumes "CHR ''-'' \<notin> set pre" "j < length pre"
  shows "match_here (drop j (pre @ m)) = None"
proof -
  from assms(2) obtain c cs where d: "drop j pre = c # cs"
    by (cases "drop j pre") auto
  then have "c \<in> set pre" by (metis in_set_dropD list.set_intros(1))
  with assms(1) have "c \<noteq> CHR ''-''" by auto
  moreover have "drop j (pre @ m) = c # cs @ m" using assms(2) d by simp
  ultimately show ?thesis by (simp add: match_here_def)
qed

lemma query_identifier_unmatched:
  assumes "\<not> (\<exists>pre ws tok rest. q = pre @ ''--'' @ ws @ tok @ '':'' @ rest
                \<and> list_all isspace ws \<and> tok \<noteq> [] \<and> list_all istoken tok)"
  shows "query_identifier q = ''Unknown Query''"
proof -
  have "match_here (drop i q) = None" for i
  proof (rule ccontr)
    assume "match_here (drop i q) \<noteq> None"
    then obtain tok where "match_here (drop i q) = Some tok" by auto
    from match_here_elim[OF this] obtain ws rest where
      d: "drop i q = ''--'' @ ws @ tok @ '':'' @ rest" and c: "list_all isspace ws" "tok \<noteq> []" "list_all istoken tok"
      by blast
    have "q = take i q @ drop i q" by simp
    with d have "q = take i q @ ''--'' @ ws @ tok @ '':'' @ rest" by metis
    with c assms show False by blast
  qed
  then have "re_search q = None" by (simp add: re_search_None)
  then show ?thesis by (simp add: query_identifier_def)
qed

text \<open>
  Claim C6. A statement that begins with the comment \<open>-- <token>:\<close> (two hyphens, any
  whitespace, a non-empty token of word characters and hyphens, a colon) has that token
  as its identifier, as \<open>-- MERGE-INTO-C13: comment\<close> followed by the statement has
  \<open>MERGE-INTO-C13\<close>; a statement in which the pattern occurs nowhere has the identifier
  \<open>Unknown Query\<close>.
\<close>

theorem identifier_of_leading_comment:
  "(list_all isspace ws \<and> tok \<noteq> [] \<and> list_all istoken tok
      \<longrightarrow> query_identifier (''--'' @ ws @ tok @ '':'' @ rest) = tok)
   \<and> (\<not> (\<exists>pre ws' tok' rest'. q = pre @ ''--'' @ ws' @ tok' @ '':'' @ rest'
             \<and> list_all isspace ws' \<and> tok' \<noteq> [] \<and> list_all istoken tok')
      \<longrightarrow> query_identifier q = ''Unknown Query'')"
proof (intro conjI impI)
  assume a: "list_all isspace ws \<and> tok \<noteq> [] \<and> list_all istoken tok"
  then have m: "match_here (''--'' @ ws @ tok @ '':'' @ rest) = Some tok"
    by (intro match_here_intro) simp_all
  have "re_search (''--'' @ ws @ tok @ '':'' @ rest) = Some tok"
    using re_search_first[of "[]" "''--'' @ ws @ tok @ '':'' @ rest" tok] m by simp
  with a show "query_identifier (''--'' @ ws @ tok @ '':'' @ rest) = tok"
    by (simp add: query_identifier_def strip_token)
next
  assume "\<not> (\<exists>pre ws' tok' rest'. q = pre @ ''--'' @ ws' @ tok' @ '':'' @ rest'
             \<and> list_all isspace ws' \<and> tok' \<noteq> [] \<and> list_all istoken tok')"
  then show "query_identifier q = ''Unknown Query''" by (rule query_identifier_unmatched)
qed

theorem identifier_of_leading_comment_witness:
  "query_identifier ''-- MERGE-INTO-C13: comment\<newline>MERGE INTO t'' = ''MERGE-INTO-C13''
   \<and> query_identifier ''SELECT 1'' = ''Unknown Query''"
proof -
  have h1: "list_all isspace '' '' \<and> ''MERGE-INTO-C13'' \<noteq> [] \<and> list_all istoken ''MERGE-INTO-C13''"
    by (simp add: isspace_def istoken_def isword_def)
  have h2: "\<not> (\<exists>pre ws' tok' rest'. ''SELECT 1'' = pre @ ''--'' @ ws' @ tok' @ '':'' @ rest'
             \<and> list_all isspace ws' \<and> tok' \<noteq> [] \<and> list_all istoken tok')"
  proof
    assume "\<exists>pre ws' tok' rest'. ''SELECT 1'' = pre @ ''--'' @ ws' @ tok' @ '':'' @ rest'
             \<and> list_all isspace ws' \<and> tok' \<noteq> [] \<and> list_all istoken tok'"
    then obtain pre post where "''SELECT 1'' = pre @ ''--'' @ post" by blast
    then have "contains ''--'' ''SELECT 1''" unfolding contains_iff by blast
    then show False by simp
  qed
  from identifier_of_leading_comment[of "'' ''" "''MERGE-INTO-C13''" "'' comment\<newline>MERGE INTO t''" "''SELECT 1''"] h1 h2
  show ?thesis by simp
qed

text \<open>
  Claim C9. The identifier comes from the first place of the whole statement text where
  the pattern \<open>-- <token>:\<close> matches, on whatever line: when no match starts before
  it, the token of a comment that follows any text \<open>pre\<close> is the identifier. The
  statement \<open>SELECT 1\<close> with the comment \<open>-- T1: x\<close> on its second line has the
  identifier \<open>T1\<close>, not \<open>Unknown Query\<close>.
\<close>

theorem identifier_from_first_occurrence:
  assumes "list_all isspace ws" and "tok \<noteq> []" and "list_all istoken tok"
    and "\<forall>j<length pre. match_here (drop j (pre @ ''--'' @ ws @ tok @ '':'' @ rest)) = None"
  shows "query_identifier (pre @ ''--'' @ ws @ tok @ '':'' @ rest) = tok"
proof -
  have "match_here (drop (length pre) (pre @ ''--'' @ ws @ tok @ '':'' @ rest)) = Some tok"
    using assms(1-3) match_here_intro[of ws tok rest] by simp
  from re_search_first[OF this assms(4)] assms(3) show ?thesis
    by (simp add: query_identifier_def strip_token)
qed

theorem identifier_from_first_occurrence_witness:
  "query_identifier ''SELECT 1\<newline>-- T1: x'' = ''T1''"
proof -
  have h: "\<forall>j<length ''SELECT 1\<newline>''. match_here (drop j (''SELECT 1\<newline>'' @ ''--'' @ '' '' @ ''T1'' @ '':'' @ '' x'')) = None"
    by (intro allI impI no_match_without_hyphen) simp_all
  have "list_all isspace '' ''" "''T1'' \<noteq> []" "list_all istoken ''T1''"
    by (simp_all add: isspace_def istoken_def isword_def)
  from identifier_from_first_occurrence[OF this h] show ?thesis by simp
qed

section \<open>Classification of what an engine answers\<close>

text \<open>
  Claim C2, as amended. When the process of a statement has ended and the statement text
  does not contain \<open>DROP DATABASE\<close>, \<open>execute_sql\<close> exits with code 1 exactly when the
  standard output contains \<open>error\<close> in any letter case, or the standard error does, or
  the standard output contains \<open>unknown function\<close> in any letter case; otherwise it
  returns the standard output. Each stream is searched on its own, and the exit code of
  the process plays no part.
\<close>

theorem error_text_is_fatal:
  assumes "subprocess_run sys (command sql_tool query db wh) (world s) = (Inr cp, w)"
    and "\<not> contains ''DROP DATABASE'' query"
  shows "fst (execute_sql sys query sql_tool db wh s) =
           (if contains ''error'' (lower (stdout cp)) \<or> contains ''error'' (lower (stderr cp))
               \<or> contains ''unknown function'' (lower (stdout cp))
            then Inl (SystemExit 1) else Inr (stdout cp))"
  using assms
  by (simp add: execute_sql_def Let_def error_pattern_def print_def emit_def)

theorem error_text_is_fatal_witness:
  "fst (execute_sql (scripted (\<lambda>cmd. Inr \<lparr>stdout = ''Error: x'', stderr = '''', returncode = 0\<rparr>) (\<lambda>p. ''''))
          ''SELECT 1'' ''bendsql'' ''db'' None start) = Inl (SystemExit 1)"
proof -
  have 1: "subprocess_run (scripted (\<lambda>cmd. Inr \<lparr>stdout = ''Error: x'', stderr = '''', returncode = 0\<rparr>) (\<lambda>p. ''''))
             (command ''bendsql'' ''SELECT 1'' ''db'' None) (world start)
           = (Inr \<lparr>stdout = ''Error: x'', stderr = '''', returncode = 0\<rparr>, 0)"
    by (simp add: scripted_def start_def)
  have 2: "\<not> contains ''DROP DATABASE'' ''SELECT 1''" by simp
  have 3: "contains ''error'' (lower ''Error: x'')" by code_simp
  from error_text_is_fatal[OF 1 2] 3 show ?thesis by simp
qed

text \<open>
  Claim C2 as stated speaks of the combined text of both streams. A process that writes
  \<open>err\<close> to its standard output and \<open>or\<close> to its standard error has \<open>error\<close> in
  the combined text, and the statement \<open>SELECT 1\<close> is no drop of a database, yet
  \<open>execute_sql\<close> returns the output.
\<close>

theorem error_across_streams_counterexample:
  "contains ''error'' (lower (''err'' @ ''or'')) \<and> \<not> contains ''DROP DATABASE'' ''SELECT 1''
   \<and> fst (execute_sql (scripted (\<lambda>cmd. says ''err'' ''or'') (\<lambda>p. ''''))
            ''SELECT 1'' ''bendsql'' ''db'' None start) = Inr ''err''"
proof -
  have 1: "contains ''error'' (lower (''err'' @ ''or''))" by code_simp
  have 2: "\<not> error_pattern ''err'' ''or''" by code_simp
  have 3: "fst (execute_sql (scripted (\<lambda>cmd. says ''err'' ''or'') (\<lambda>p. ''''))
            ''SELECT 1'' ''bendsql'' ''db'' None start) = Inr ''err''"
    using 2 by (simp add: execute_sql_def scripted_def says_def start_def Let_def print_def emit_def)
  from 1 3 show ?thesis by simp
qed

text \<open>
  Claim C3. For a statement whose text contains \<open>DROP DATABASE\<close>, with any client,
  \<open>execute_sql\<close> never exits; whenever the process has ended, whatever it wrote, the
  result is its standard output.
\<close>

theorem drop_database_never_fatal:
  assumes "contains ''DROP DATABASE'' query"
  shows "fst (execute_sql sys query sql_tool db wh s) \<noteq> Inl (SystemExit n)
         \<and> (\<forall>cp w. subprocess_run sys (command sql_tool query db wh) (world s) = (Inr cp, w)
               \<longrightarrow> fst (execute_sql sys query sql_tool db wh s) = Inr (stdout cp))"
  using assms
  by (auto simp: execute_sql_def Let_def print_def emit_def
           split: prod.splits sum.splits py_exception.splits)

theorem drop_database_never_fatal_witness:
  "fst (execute_sql (scripted (\<lambda>cmd. says ''ERROR 1008: Unknown database x'' ''error'') (\<lambda>p. ''''))
          ''DROP DATABASE x'' ''snowsql'' ''db'' (Some ''wh'') start) \<noteq> Inl (SystemExit 1)
   \<and> fst (execute_sql (scripted (\<lambda>cmd. says ''ERROR 1008: Unknown database x'' ''error'') (\<lambda>p. ''''))
          ''DROP DATABASE x'' ''snowsql'' ''db'' (Some ''wh'') start) = Inr ''ERROR 1008: Unknown database x''"
proof -
  have 1: "contains ''DROP DATABASE'' ''DROP DATABASE x''" by simp
  have 2: "subprocess_run (scripted (\<lambda>cmd. says ''ERROR 1008: Unknown database x'' ''error'') (\<lambda>p. ''''))
             (command ''snowsql'' ''DROP DATABASE x'' ''db'' (Some ''wh'')) (world start)
           = (Inr \<lparr>stdout = ''ERROR 1008: Unknown database x'', stderr = ''error'', returncode = 0\<rparr>, 0)"
    by (simp add: scripted_def says_def start_def)
  from drop_database_never_fatal[OF 1, of "scripted (\<lambda>cmd. says ''ERROR 1008: Unknown database x'' ''error'') (\<lambda>p. '''')"
         "''snowsql''" "''db''" "Some ''wh''" start 1] 2
  show ?thesis by simp
qed

text \<open>
  Claim C10. The two tests of the tolerance read the exact spellings. The statement
  \<open>drop database x\<close>, in lower case, is not taken for a drop: when its process ends with
  \<open>error\<close> in its output, in any letter case, \<open>execute_sql\<close> exits with code 1. For a
  statement that contains \<open>DROP DATABASE\<close>, the branch that reports a database that does
  not exist, whose trace is the command, the process and that one message, is taken
  exactly when the output followed by the error text contains \<open>Unknown database\<close>.
\<close>

theorem tolerance_is_case_sensitive:
  "(subprocess_run sys (command sql_tool ''drop database x'' db wh) (world s) = (Inr cp, w)
      \<and> contains ''error'' (lower (stdout cp))
    \<longrightarrow> fst (execute_sql sys ''drop database x'' sql_tool db wh s) = Inl (SystemExit 1))
   \<and> (contains ''DROP DATABASE'' query
      \<and> subprocess_run sys (command sql_tool query db wh) (world s) = (Inr cp, w)
    \<longrightarrow> (since s (snd (execute_sql sys query sql_tool db wh s)) =
           [Print (Plain (''Executing command: '' @ join '' '' (command sql_tool query db wh))),
            Run (command sql_tool query db wh) (Inr cp),
            Print (Plain ''Database doesn't exist, continuing with creation...'')])
         = contains ''Unknown database'' (stdout cp @ stderr cp))"
proof (intro conjI impI)
  assume a: "subprocess_run sys (command sql_tool ''drop database x'' db wh) (world s) = (Inr cp, w)
      \<and> contains ''error'' (lower (stdout cp))"
  have "\<not> contains ''DROP DATABASE'' ''drop database x''" by simp
  with a show "fst (execute_sql sys ''drop database x'' sql_tool db wh s) = Inl (SystemExit 1)"
    by (simp add: execute_sql_def Let_def error_pattern_def print_def emit_def)
next
  assume a: "contains ''DROP DATABASE'' query
      \<and> subprocess_run sys (command sql_tool query db wh) (world s) = (Inr cp, w)"
  then show "(since s (snd (execute_sql sys query sql_tool db wh s)) =
           [Print (Plain (''Executing command: '' @ join '' '' (command sql_tool query db wh))),
            Run (command sql_tool query db wh) (Inr cp),
            Print (Plain ''Database doesn't exist, continuing with creation...'')])
         = contains ''Unknown database'' (stdout cp @ stderr cp)"
    by (simp add: execute_sql_def Let_def print_def emit_def since_def)
qed

theorem tolerance_is_case_sensitive_witness:
  "fst (execute_sql (scripted (\<lambda>cmd. says ''Error: Unknown database x'' '''') (\<lambda>p. ''''))
          ''drop database x'' ''bendsql'' ''default'' None start) = Inl (SystemExit 1)
   \<and> since start (snd (execute_sql (scripted (\<lambda>cmd. says ''unknown database x'' '''') (\<lambda>p. ''''))
          ''DROP DATABASE x'' ''bendsql'' ''default'' None start)) \<noteq>
       [Print (Plain (''Executing command: '' @ join '' '' (command ''bendsql'' ''DROP DATABASE x'' ''default'' None))),
        Run (command ''bendsql'' ''DROP DATABASE x'' ''default'' None)
          (Inr \<lparr>stdout = ''unknown database x'', stderr = '''', returncode = 0\<rparr>),
        Print (Plain ''Database doesn't exist, continuing with creation...'')]"
proof -
  have 1: "subprocess_run (scripted (\<lambda>cmd. says ''Error: Unknown database x'' '''') (\<lambda>p. ''''))
             (command ''bendsql'' ''drop database x'' ''default'' None) (world start)
           = (Inr \<lparr>stdout = ''Error: Unknown database x'', stderr = '''', returncode = 0\<rparr>, 0)"
    by (simp add: scripted_def says_def start_def)
  have 2: "contains ''error'' (lower ''Error: Unknown database x'')" by code_simp
  have 3: "contains ''DROP DATABASE'' ''DROP DATABASE x''" by simp
  have 4: "subprocess_run (scripted (\<lambda>cmd. says ''unknown database x'' '''') (\<lambda>p. ''''))
             (command ''bendsql'' ''DROP DATABASE x'' ''default'' None) (world start)
           = (Inr \<lparr>stdout = ''unknown database x'', stderr = '''', returncode = 0\<rparr>, 0)"
    by (simp add: scripted_def says_def start_def)
  have 5: "\<not> contains ''Unknown database'' (''unknown database x'' @ '''')" by simp
  from tolerance_is_case_sensitive[of "scripted (\<lambda>cmd. says ''Error: Unknown database x'' '''') (\<lambda>p. '''')"
      "''bendsql''" "''default''" None start
      "\<lparr>stdout = ''Error: Unknown database x'', stderr = '''', returncode = 0\<rparr>" 0] 1 2
  have a: "fst (execute_sql (scripted (\<lambda>cmd. says ''Error: Unknown database x'' '''') (\<lambda>p. ''''))
          ''drop database x'' ''bendsql'' ''default'' None start) = Inl (SystemExit 1)"
    by simp
  from tolerance_is_case_sensitive[of "scripted (\<lambda>cmd. says ''unknown database x'' '''') (\<lambda>p. '''')"
      "''bendsql''" "''default''" None start
      "\<lparr>stdout = ''unknown database x'', stderr = '''', returncode = 0\<rparr>" 0 "''DROP DATABASE x''"] 3 4 5
  have b: "since start (snd (execute_sql (scripted (\<lambda>cmd. says ''unknown database x'' '''') (\<lambda>p. ''''))
          ''DROP DATABASE x'' ''bendsql'' ''default'' None start)) \<noteq>
       [Print (Plain (''Executing command: '' @ join '' '' (command ''bendsql'' ''DROP DATABASE x'' ''default'' None))),
        Run (command ''bendsql'' ''DROP DATABASE x'' ''default'' None)
          (Inr \<lparr>stdout = ''unknown database x'', stderr = '''', returncode = 0\<rparr>),
        Print (Plain ''Database doesn't exist, continuing with creation...'')]"
    by simp
  from a b show ?thesis by simp
qed

section \<open>Provisioning\<close>

lemma execute_sql_runs:
  assumes "execute_sql sys q t d w s = (r, s')"
  shows "\<exists>es. trace s' = trace s @ es \<and>
           runs es = [(command t q d w, fst (subprocess_run sys (command t q d w) (world s)))]"
proof -
  from execute_sql_trace[OF assms] obtain es where
    a: "trace s' = trace s @ es"
       "timeline es = [Run (command t q d w) (fst (subprocess_run sys (command t q d w) (world s)))]"
    by blast
  have "runs (timeline es) = [(command t q d w, fst (subprocess_run sys (command t q d w) (world s)))]"
    by (simp only: a(2) runs.simps)
  with a(1) show ?thesis by (auto simp: runs_timeline)
qed

lemma execute_sql_result:
  assumes "execute_sql sys q t d w s = (r, s')"
  shows "r = (case fst (subprocess_run sys (command t q d w) (world s)) of
                Inl pe \<Rightarrow> Inl (Raised pe)
              | Inr cp \<Rightarrow> if error_pattern (stdout cp) (stderr cp) \<and> \<not> contains ''DROP DATABASE'' q
                          then Inl (SystemExit 1) else Inr (stdout cp))"
  using assms
  by (auto simp: execute_sql_def Let_def print_def emit_def
           split: prod.splits sum.splits py_exception.splits if_splits)

lemma setup_database_bendsql:
  assumes "setup_database sys database_name ''bendsql'' s = (r, s')"
  shows "map fst (runs (since s s')) =
           [command ''bendsql'' (''DROP DATABASE IF EXISTS '' @ database_name @ '';'') ''default'' None,
            command ''bendsql'' (''CREATE DATABASE '' @ database_name @ '';'') ''default'' None]
         \<and> r = (case snd (last (runs (since s s'))) of
                  Inl pe \<Rightarrow> Inl (Raised pe)
                | Inr cp \<Rightarrow>
                    if error_pattern (stdout cp) (stderr cp)
                       \<and> \<not> contains ''DROP DATABASE'' (''CREATE DATABASE '' @ database_name @ '';'')
                    then Inl (SystemExit 1) else Inr ())
         \<and> (\<forall>pe. snd (hd (runs (since s s'))) = Inl pe
               \<longrightarrow> Print (Plain (''Warning: Could not drop database (it may not exist): '' @ str_exception pe)) \<in> set (since s s'))"
proof -
  let ?dq = "''DROP DATABASE IF EXISTS '' @ database_name @ '';''"
  let ?cq = "''CREATE DATABASE '' @ database_name @ '';''"
  have dd: "contains ''DROP DATABASE'' ?dq"
    unfolding contains_iff
    by (intro exI[of _ "[]"] exI[of _ "'' IF EXISTS '' @ database_name @ '';''"]) simp
  obtain r1 s1 where e1: "execute_sql sys ?dq ''bendsql'' ''default'' None s = (r1, s1)"
    by (cases "execute_sql sys ?dq ''bendsql'' ''default'' None s")
  define x1 where "x1 = fst (subprocess_run sys (command ''bendsql'' ?dq ''default'' None) (world s))"
  from execute_sql_runs[OF e1] obtain es1 where
    t1: "trace s1 = trace s @ es1" and ru1': "runs es1 = [(command ''bendsql'' ?dq ''default'' None, x1)]"
    by (auto simp: x1_def)
  then have ru1: "map fst (runs es1) = [command ''bendsql'' ?dq ''default'' None]" by simp
  have r1: "\<forall>pe. x1 = Inl pe \<longrightarrow> r1 = Inl (Raised pe)"
    using execute_sql_result[OF e1] by (simp add: x1_def)
  have noexit: "r1 \<noteq> Inl (SystemExit n)" for n
    using execute_sql_result[OF e1] dd by (simp split: sum.splits)
  define s2 where "s2 = (case r1 of Inl (Raised e) \<Rightarrow>
       print (Plain (''Warning: Could not drop database (it may not exist): '' @ str_exception e)) s1 | _ \<Rightarrow> s1)"
  have "\<exists>ps. trace s2 = trace s1 @ ps \<and> runs ps = []
          \<and> (\<forall>pe. r1 = Inl (Raised pe) \<longrightarrow> Print (Plain (''Warning: Could not drop database (it may not exist): '' @ str_exception pe)) \<in> set ps)"
  proof (cases r1)
    case (Inl e)
    then show ?thesis
    proof (cases e)
      case (SystemExit n)
      with Inl show ?thesis by (simp add: s2_def)
    next
      case (Raised pe)
      with Inl have t: "trace s2 = trace s1 @ [Print (Plain (''Warning: Could not drop database (it may not exist): '' @ str_exception pe))]"
        by (simp add: s2_def print_trace)
      have "trace s2 = trace s1 @ [Print (Plain (''Warning: Could not drop database (it may not exist): '' @ str_exception pe))]
          \<and> runs [Print (Plain (''Warning: Could not drop database (it may not exist): '' @ str_exception pe))] = []
          \<and> (\<forall>pe'. r1 = Inl (Raised pe') \<longrightarrow> Print (Plain (''Warning: Could not drop database (it may not exist): '' @ str_exception pe'))
                \<in> set [Print (Plain (''Warning: Could not drop database (it may not exist): '' @ str_exception pe))])"
        using t Inl Raised by simp
      then show ?thesis by blast
    qed
  next
    case (Inr a)
    then show ?thesis by (simp add: s2_def)
  qed
  then obtain ps where t2: "trace s2 = trace s1 @ ps" and rp: "runs ps = []"
    and wp: "\<forall>pe. r1 = Inl (Raised pe) \<longrightarrow> Print (Plain (''Warning: Could not drop database (it may not exist): '' @ str_exception pe)) \<in> set ps"
    by blast
  obtain r2 s3 where e2: "execute_sql sys ?cq ''bendsql'' ''default'' None s2 = (r2, s3)"
    by (cases "execute_sql sys ?cq ''bendsql'' ''default'' None s2")
  define x2 where "x2 = fst (subprocess_run sys (command ''bendsql'' ?cq ''default'' None) (world s2))"
  from execute_sql_runs[OF e2] obtain es3 where
    t3: "trace s3 = trace s2 @ es3" and ru3: "runs es3 = [(command ''bendsql'' ?cq ''default'' None, x2)]"
    by (auto simp: x2_def)
  have r2: "r2 = (case x2 of Inl pe \<Rightarrow> Inl (Raised pe)
              | Inr cp \<Rightarrow> if error_pattern (stdout cp) (stderr cp) \<and> \<not> contains ''DROP DATABASE'' ?cq
                          then Inl (SystemExit 1) else Inr (stdout cp))"
    using execute_sql_result[OF e2] by (simp add: x2_def)
  have main: "setup_database sys database_name ''bendsql'' s =
      (case r2 of Inl e \<Rightarrow> (Inl e, s3)
       | Inr _ \<Rightarrow> (Inr (), print (Plain (''Database '' @ [CHR 0x27] @ database_name @ [CHR 0x27] @ '' has been set up.'')) s3))"
    using e1 e2 noexit
    by (cases r1; simp add: setup_database_def Let_def andthen_def s2_def
          split: exc.splits sum.splits)
  obtain qs where t4: "trace s' = trace s3 @ qs" and rq: "runs qs = []"
      and r: "r = (case r2 of Inl e \<Rightarrow> Inl e | Inr _ \<Rightarrow> Inr ())"
    using assms unfolding main by (cases r2) (auto simp: print_trace)
  have tr: "trace s' = trace s @ (es1 @ ps @ es3 @ qs)" using t1 t2 t3 t4 by simp
  have "runs (es1 @ ps @ es3 @ qs) = runs es1 @ [(command ''bendsql'' ?cq ''default'' None, x2)]"
    by (simp add: runs_append rp ru3 rq)
  then have ru: "runs (since s s') = runs es1 @ [(command ''bendsql'' ?cq ''default'' None, x2)]"
    using since_append[OF tr] by simp
  have "r = (case x2 of Inl pe \<Rightarrow> Inl (Raised pe)
              | Inr cp \<Rightarrow> if error_pattern (stdout cp) (stderr cp) \<and> \<not> contains ''DROP DATABASE'' ?cq
                          then Inl (SystemExit 1) else Inr ())"
    unfolding r r2 by (simp split: sum.splits)
  moreover have "\<forall>pe. snd (hd (runs (since s s'))) = Inl pe
               \<longrightarrow> Print (Plain (''Warning: Could not drop database (it may not exist): '' @ str_exception pe)) \<in> set (since s s')"
    using ru ru1' r1 wp since_append[OF tr] by simp
  ultimately show ?thesis using ru ru1 by simp
qed

text \<open>
  Claim C5, as amended. Provisioning bendsql runs two processes and no more: first
  \<open>DROP DATABASE IF EXISTS <name>;\<close> and then \<open>CREATE DATABASE <name>;\<close>, both on the
  connection to the database \<open>default\<close>. Whatever the drop does, raise or answer, the
  create is run, and it alone decides how provisioning ends: with the exception that
  launching it raised, with exit code 1 when its answer has an error pattern, and
  otherwise normally.
\<close>

theorem bendsql_provisioning:
  assumes "setup_database sys database_name ''bendsql'' s = (r, s')"
  shows "map fst (runs (since s s')) =
           [command ''bendsql'' (''DROP DATABASE IF EXISTS '' @ database_name @ '';'') ''default'' None,
            command ''bendsql'' (''CREATE DATABASE '' @ database_name @ '';'') ''default'' None]
         \<and> r = (case snd (last (runs (since s s'))) of
                  Inl pe \<Rightarrow> Inl (Raised pe)
                | Inr cp \<Rightarrow>
                    if error_pattern (stdout cp) (stderr cp)
                       \<and> \<not> contains ''DROP DATABASE'' (''CREATE DATABASE '' @ database_name @ '';'')
                    then Inl (SystemExit 1) else Inr ())
         \<and> (\<forall>pe. snd (hd (runs (since s s'))) = Inl pe
               \<longrightarrow> Print (Plain (''Warning: Could not drop database (it may not exist): '' @ str_exception pe)) \<in> set (since s s'))"
  using assms by (rule setup_database_bendsql)

theorem bendsql_provisioning_witness:
  "map fst (runs (since start (snd (setup_database (scripted drop_raises (\<lambda>p. [])) ''db'' ''bendsql'' start)))) =
     [[''bendsql'', ''--query=DROP DATABASE IF EXISTS db;'', ''-D'', ''default''],
      [''bendsql'', ''--query=CREATE DATABASE db;'', ''-D'', ''default'']]
   \<and> fst (setup_database (scripted drop_raises (\<lambda>p. [])) ''db'' ''bendsql'' start) = Inr ()
   \<and> Print (Plain ''Warning: Could not drop database (it may not exist): no such database'')
       \<in> set (since start (snd (setup_database (scripted drop_raises (\<lambda>p. [])) ''db'' ''bendsql'' start)))"
proof -
  have e: "\<not> error_pattern [] []" by code_simp
  have v: "setup_database (scripted drop_raises (\<lambda>p. [])) ''db'' ''bendsql'' start =
        (Inr (), snd (setup_database (scripted drop_raises (\<lambda>p. [])) ''db'' ''bendsql'' start))"
    using e
    by (simp add: setup_database_def execute_sql_def Let_def andthen_def scripted_def drop_raises_def
          says_def start_def command_def print_def emit_def)
  have f: "fst (setup_database (scripted drop_raises (\<lambda>p. [])) ''db'' ''bendsql'' start) = Inr ()"
    using v by (metis fst_conv)
  have h: "snd (hd (runs (since start (snd (setup_database (scripted drop_raises (\<lambda>p. [])) ''db'' ''bendsql'' start)))))
             = Inl (OtherException ''no such database'')"
    using e
    by (simp add: setup_database_def execute_sql_def Let_def andthen_def scripted_def drop_raises_def
          says_def start_def command_def print_def emit_def since_def)
  from bendsql_provisioning[OF v] f h show ?thesis by (simp add: command_def str_exception_def)
qed

text \<open>
  Claim C5 as stated has the drop without \<open>IF EXISTS\<close>. The first process of provisioning
  bendsql for the database \<open>db\<close> is run with the statement
  \<open>DROP DATABASE IF EXISTS db;\<close>.
\<close>

theorem bendsql_drop_counterexample:
  "hd (map fst (runs (since start (snd (setup_database (scripted drop_raises (\<lambda>p. [])) ''db'' ''bendsql'' start)))))
     = [''bendsql'', ''--query=DROP DATABASE IF EXISTS db;'', ''-D'', ''default'']
   \<and> contains ''IF EXISTS'' ''DROP DATABASE IF EXISTS db;''"
proof -
  obtain r s' where v: "setup_database (scripted drop_raises (\<lambda>p. [])) ''db'' ''bendsql'' start = (r, s')"
    by (cases "setup_database (scripted drop_raises (\<lambda>p. [])) ''db'' ''bendsql'' start")
  from setup_database_bendsql[OF v] v show ?thesis by (simp add: command_def)
qed

section \<open>Scripts and their statements\<close>



lemma split_on_nonempty: "split_on sep s \<noteq> []"
  by (induction s) (auto split: list.splits)




lemma report_passed_trace:
  "\<exists>ps. trace (report_passed sys passed s) = trace s @ ps \<and> timeline ps = []
        \<and> world (report_passed sys passed s) = world s"
proof -
  have f: "\<exists>ps. trace (foldl (\<lambda>s' (test, elapsed_time).
                 print (Colored (''OK - '' @ test @ '' ('' @ format_2f sys elapsed_time @ ''s)'') ''green'') s')
             s0 xs) = trace s0 @ ps \<and> timeline ps = []
           \<and> world (foldl (\<lambda>s' (test, elapsed_time).
                 print (Colored (''OK - '' @ test @ '' ('' @ format_2f sys elapsed_time @ ''s)'') ''green'') s')
             s0 xs) = world s0" for s0 :: "'a state" and xs
  proof (induction xs arbitrary: s0)
    case Nil
    show ?case by (intro exI[of _ "[]"]) simp
  next
    case (Cons x xs)
    obtain test el where x: "x = (test, el)" by (cases x)
    let ?s1 = "print (Colored (''OK - '' @ test @ '' ('' @ format_2f sys el @ ''s)'') ''green'') s0"
    from Cons.IH[of ?s1] obtain ps where
      a: "trace (foldl (\<lambda>s' (test, elapsed_time).
                 print (Colored (''OK - '' @ test @ '' ('' @ format_2f sys elapsed_time @ ''s)'') ''green'') s')
             ?s1 xs) = trace ?s1 @ ps" "timeline ps = []"
         "world (foldl (\<lambda>s' (test, elapsed_time).
                 print (Colored (''OK - '' @ test @ '' ('' @ format_2f sys elapsed_time @ ''s)'') ''green'') s')
             ?s1 xs) = world ?s1"
      by blast
    show ?case
      using a x
      by (intro exI[of _ "Print (Colored (''OK - '' @ test @ '' ('' @ format_2f sys el @ ''s)'') ''green'') # ps"])
         (simp add: print_def emit_def)
  qed
  show ?thesis
  proof (cases "passed = []")
    case True
    then show ?thesis by (intro exI[of _ "[]"]) (simp add: report_passed_def)
  next
    case False
    from f[of "print (Colored ''\<newline>Passed Tests:'' ''green'') s" passed] obtain ps where
      "trace (report_passed sys passed s) = trace (print (Colored ''\<newline>Passed Tests:'' ''green'') s) @ ps"
      "timeline ps = []"
      "world (report_passed sys passed s) = world (print (Colored ''\<newline>Passed Tests:'' ''green'') s)"
      using False by (auto simp: report_passed_def)
    then show ?thesis
      by (intro exI[of _ "Print (Colored ''\<newline>Passed Tests:'' ''green'') # ps"])
         (simp add: print_def emit_def)
  qed
qed

lemma report_failed_trace:
  "\<exists>ps. trace (report_failed failed s) = trace s @ ps \<and> timeline ps = []
        \<and> world (report_failed failed s) = world s"
proof -
  have f: "\<exists>ps. trace (foldl (\<lambda>s' (test, bend_result, snow_result).
                 print (Colored (''snowsql result:\<newline>'' @ snow_result) ''red'')
                   (print (Colored (''bendsql result:\<newline>'' @ bend_result) ''red'')
                     (print (Colored (''Test: '' @ test) ''red'') s')))
             s0 xs) = trace s0 @ ps \<and> timeline ps = []
           \<and> world (foldl (\<lambda>s' (test, bend_result, snow_result).
                 print (Colored (''snowsql result:\<newline>'' @ snow_result) ''red'')
                   (print (Colored (''bendsql result:\<newline>'' @ bend_result) ''red'')
                     (print (Colored (''Test: '' @ test) ''red'') s')))
             s0 xs) = world s0" for s0 :: "'a state" and xs
  proof (induction xs arbitrary: s0)
    case Nil
    show ?case by (intro exI[of _ "[]"]) simp
  next
    case (Cons x xs)
    obtain test b sn where x: "x = (test, b, sn)" by (cases x)
    let ?s1 = "print (Colored (''snowsql result:\<newline>'' @ sn) ''red'')
                   (print (Colored (''bendsql result:\<newline>'' @ b) ''red'')
                     (print (Colored (''Test: '' @ test) ''red'') s0))"
    from Cons.IH[of ?s1] obtain ps where
      a: "trace (foldl (\<lambda>s' (test, bend_result, snow_result).
                 print (Colored (''snowsql result:\<newline>'' @ snow_result) ''red'')
                   (print (Colored (''bendsql result:\<newline>'' @ bend_result) ''red'')
                     (print (Colored (''Test: '' @ test) ''red'') s')))
             ?s1 xs) = trace ?s1 @ ps" "timeline ps = []"
         "world (foldl (\<lambda>s' (test, bend_result, snow_result).
                 print (Colored (''snowsql result:\<newline>'' @ snow_result) ''red'')
                   (print (Colored (''bendsql result:\<newline>'' @ bend_result) ''red'')
                     (print (Colored (''Test: '' @ test) ''red'') s')))
             ?s1 xs) = world ?s1"
      by blast
    show ?case
      using a x
      by (intro exI[of _ "[Print (Colored (''Test: '' @ test) ''red''),
                           Print (Colored (''bendsql result:\<newline>'' @ b) ''red''),
                           Print (Colored (''snowsql result:\<newline>'' @ sn) ''red'')] @ ps"])
         (simp add: print_def emit_def)
  qed
  show ?thesis
  proof (cases "failed = []")
    case True
    then show ?thesis by (intro exI[of _ "[]"]) (simp add: report_failed_def)
  next
    case False
    from f[of "print (Colored ''\<newline>Failed Tests and their differences:'' ''red'') s" failed] obtain ps where
      "trace (report_failed failed s) = trace (print (Colored ''\<newline>Failed Tests and their differences:'' ''red'') s) @ ps"
      "timeline ps = []"
      "world (report_failed failed s) = world (print (Colored ''\<newline>Failed Tests and their differences:'' ''red'') s)"
      using False by (auto simp: report_failed_def)
    then show ?thesis
      by (intro exI[of _ "Print (Colored ''\<newline>Failed Tests and their differences:'' ''red'') # ps"])
         (simp add: print_def emit_def)
  qed
qed





lemma no_error_in_nothing: "\<not> error_pattern [] []"
  by code_simp





section \<open>The steps of a run\<close>

lemma steps_append: "steps (xs @ ys) = steps xs @ steps ys"
  by (induction xs rule: steps.induct) auto

lemma steps_timeline: "steps (timeline es) = steps es"
proof (induction es)
  case (Cons e es)
  show ?case
  proof (cases e)
    case (Open p r)
    with Cons show ?thesis by (cases r) simp_all
  qed (simp_all add: Cons)
qed simp

lemma andthen_Inr:
  assumes "andthen m f s = (Inr b, s')"
  obtains a s1 where "m s = (Inr a, s1)" "f a s1 = (Inr b, s')"
  using assms by (auto simp: andthen_def split: prod.splits sum.splits)

lemma execute_sql_steps:
  assumes "execute_sql sys q t d w s = (r, s')"
  shows "\<exists>es. trace s' = trace s @ es \<and> steps es = [Launches (command t q d w)]"
proof -
  from execute_sql_trace[OF assms] obtain es where
    a: "trace s' = trace s @ es"
       "timeline es = [Run (command t q d w) (fst (subprocess_run sys (command t q d w) (world s)))]"
    by blast
  have "steps (timeline es) = [Launches (command t q d w)]" by (simp only: a(2) steps.simps)
  with a(1) show ?thesis by (auto simp: steps_timeline)
qed

lemma run_queries_steps:
  "run_queries sys t d w qs s = (Inr u, s') \<Longrightarrow>
   \<exists>es. trace s' = trace s @ es
     \<and> steps es = map (\<lambda>q. Launches (command t q d w)) (statements qs)"
proof (induction qs arbitrary: s)
  case Nil
  then have "trace s' = trace s @ []" by simp
  then show ?case by (intro exI[of _ "[]"]) (simp add: statements_def)
next
  case (Cons q qs)
  show ?case
  proof (cases "strip q = []")
    case True
    with Cons.prems have "run_queries sys t d w qs s = (Inr u, s')" by simp
    from Cons.IH[OF this] True show ?thesis by (simp add: statements_def)
  next
    case False
    then have st: "statements (q # qs) = q # statements qs" by (simp add: statements_def)
    obtain r1 s1 where e: "execute_sql sys q t d w s = (r1, s1)"
      by (cases "execute_sql sys q t d w s")
    from execute_sql_steps[OF e] obtain es1 where
      t1: "trace s1 = trace s @ es1" and ru1: "steps es1 = [Launches (command t q d w)]"
      by auto
    from Cons.prems False e have "run_queries sys t d w qs s1 = (Inr u, s')"
      by (cases r1) simp_all
    from Cons.IH[OF this] obtain es2 where
      a: "trace s' = trace s1 @ es2"
         "steps es2 = map (\<lambda>q. Launches (command t q d w)) (statements qs)"
      by blast
    have "trace s' = trace s @ (es1 @ es2)" using a(1) t1 by simp
    moreover have "steps (es1 @ es2) = map (\<lambda>q. Launches (command t q d w)) (statements (q # qs))"
      using a(2) ru1 by (simp add: steps_append st)
    ultimately show ?thesis by blast
  qed
qed

lemma open_read_steps:
  assumes "open_read sys path s = (Inr text, s')"
  shows "trace s' = trace s @ [Open path (Inr text)]"
  using assms by (auto simp: open_read_def Let_def emit_def split: prod.splits sum.splits)

lemma execute_sql_scripts_steps:
  assumes "execute_sql_scripts sys t path d w s = (Inr u, s')"
  shows "\<exists>es content. trace s' = trace s @ es \<and> steps es = script_steps t path content d w"
proof -
  let ?s1 = "print (Plain (''Executing SQL scripts from: '' @ path @ '' using '' @ t)) s"
  from assms have "andthen (open_read sys path)
           (\<lambda>sql_script. run_queries sys t d w (split_on CHR '';'' sql_script)) ?s1 = (Inr u, s')"
    by (simp add: execute_sql_scripts_def Let_def)
  then obtain content s2 where o: "open_read sys path ?s1 = (Inr content, s2)"
    and r: "run_queries sys t d w (split_on CHR '';'' content) s2 = (Inr u, s')"
    by (rule andthen_Inr)
  from run_queries_steps[OF r] obtain es where
    a: "trace s' = trace s2 @ es"
       "steps es = map (\<lambda>q. Launches (command t q d w)) (statements (split_on CHR '';'' content))"
    by blast
  have "trace s' = trace s @ ([Print (Plain (''Executing SQL scripts from: '' @ path @ '' using '' @ t)),
          Open path (Inr content)] @ es)"
    using a(1) open_read_steps[OF o] by (simp add: print_trace)
  moreover have "steps ([Print (Plain (''Executing SQL scripts from: '' @ path @ '' using '' @ t)),
          Open path (Inr content)] @ es) = script_steps t path content d w"
    using a(2) by (simp add: script_steps_def)
  ultimately show ?thesis by blast
qed

lemma steps_rounds:
  "length obs = length xs \<Longrightarrow>
   steps (concat (map (round_events db wh) (zip xs obs))) =
     concat (map (\<lambda>q. map Launches (both_commands db wh q)) xs)"
proof (induction obs xs rule: list_induct2)
  case Nil
  show ?case by simp
next
  case (Cons y ys x xs)
  obtain t0 b sn t1 where y: "y = (t0, b, sn, t1)" by (cases y)
  show ?case using Cons.IH
    by (simp add: steps_append y round_events_def both_commands_def)
qed

lemma check_loop_steps:
  assumes "check_loop sys db wh qs ([], []) s = (Inr (f, p), s')"
  shows "\<exists>es. trace s' = trace s @ es
           \<and> steps es = concat (map (\<lambda>q. map Launches (both_commands db wh q)) (statements qs))"
proof -
  from check_loop_Inr[OF assms] obtain es obs where
    a: "trace s' = trace s @ es" "length obs = length (statements qs)"
       "timeline es = concat (map (round_events db wh) (zip (statements qs) obs))"
    by blast
  have "steps (timeline es) = concat (map (\<lambda>q. map Launches (both_commands db wh q)) (statements qs))"
    unfolding a(3) using a(2) by (rule steps_rounds)
  with a(1) show ?thesis by (auto simp: steps_timeline)
qed

lemma report_steps:
  "\<exists>ps. trace (report_failed f (report_passed sys p s)) = trace s @ ps \<and> steps ps = []"
proof -
  from report_passed_trace[of sys p s] obtain ps1 where
    p1: "trace (report_passed sys p s) = trace s @ ps1" "timeline ps1 = []" by blast
  from report_failed_trace[of f "report_passed sys p s"] obtain ps2 where
    p2: "trace (report_failed f (report_passed sys p s)) = trace (report_passed sys p s) @ ps2"
        "timeline ps2 = []" by blast
  have "steps (timeline (ps1 @ ps2)) = []" by (simp add: timeline_append p1(2) p2(2))
  then have "steps (ps1 @ ps2) = []" by (simp only: steps_timeline)
  moreover have "trace (report_failed f (report_passed sys p s)) = trace s @ (ps1 @ ps2)"
    using p1(1) p2(1) by simp
  ultimately show ?thesis by blast
qed

lemma run_check_sql_steps:
  assumes "run_check_sql sys db wh path s = (Inr fp, s')"
  shows "\<exists>es content. trace s' = trace s @ es \<and> steps es = comparator_steps path content db wh"
proof -
  obtain t0 s1 where n0: "now sys s = (t0, s1)" by (cases "now sys s")
  obtain r2 s1' where o': "open_read sys path s1 = (r2, s1')" by (cases "open_read sys path s1")
  from assms n0 o' obtain content where r2: "r2 = Inr content"
    by (cases r2) (simp_all add: run_check_sql_def andthen_def)
  with o' have o: "open_read sys path s1 = (Inr content, s1')" by simp
  obtain r3 s2 where c': "check_loop sys db wh (split_on CHR '';'' content) ([], []) s1' = (r3, s2)"
    by (cases "check_loop sys db wh (split_on CHR '';'' content) ([], []) s1'")
  from assms n0 o c' obtain a where r3: "r3 = Inr a"
    by (cases r3) (simp_all add: run_check_sql_def andthen_def)
  obtain f p where a: "a = (f, p)" by (cases a)
  from c' r3 a have c: "check_loop sys db wh (split_on CHR '';'' content) ([], []) s1' = (Inr (f, p), s2)"
    by simp
  obtain t1 s3 where n1: "now sys s2 = (t1, s3)" by (cases "now sys s2")
  from assms n0 o c n1 have s': "s' = print (Colored (''\<newline>Total Time: '' @ format_2f sys (t1 - t0) @ ''s'') ''blue'')
                      (report_failed f (report_passed sys p s3))"
    by (auto simp: run_check_sql_def andthen_def Let_def)
  from check_loop_steps[OF c] obtain es where
    e: "trace s2 = trace s1' @ es"
       "steps es = concat (map (\<lambda>q. map Launches (both_commands db wh q)) (statements (split_on CHR '';'' content)))"
    by blast
  from report_steps[of f sys p s3] obtain ps where
    r: "trace (report_failed f (report_passed sys p s3)) = trace s3 @ ps" "steps ps = []" by blast
  have "trace s' = trace s @ ([Time t0, Open path (Inr content)] @ es @ [Time t1] @ ps
             @ [Print (Colored (''\<newline>Total Time: '' @ format_2f sys (t1 - t0) @ ''s'') ''blue'')])"
    using s' r(1) now_trace[OF n1] e(1) open_read_steps[OF o] now_trace[OF n0] by (simp add: print_trace)
  moreover have "steps ([Time t0, Open path (Inr content)] @ es @ [Time t1] @ ps
             @ [Print (Colored (''\<newline>Total Time: '' @ format_2f sys (t1 - t0) @ ''s'') ''blue'')])
          = comparator_steps path content db wh"
    using e(2) r(2) by (simp add: steps_append comparator_steps_def)
  ultimately show ?thesis by blast
qed

lemma setup_database_steps:
  assumes "setup_database sys dbn t s = (Inr u, s')"
  shows "\<exists>es. trace s' = trace s @ es \<and> steps es = provision_steps t dbn"
proof -
  let ?dq = "''DROP DATABASE IF EXISTS '' @ dbn @ '';''"
  let ?cq = "''CREATE DATABASE '' @ dbn @ '';''"
  let ?done = "(\<lambda>_ s'. (Inr (), print (Plain (''Database '' @ [CHR 0x27] @ dbn @ [CHR 0x27]
                                                   @ '' has been set up.'')) s')) :: string \<Rightarrow> ('a, unit) prog"
  let ?conn = "if t = ''bendsql'' then ''default'' else dbn"
  have finish: "\<exists>es. trace s' = trace s2 @ es \<and> steps es = [Launches (command t ?cq ?conn None)]"
    if "andthen (execute_sql sys ?cq t ?conn None) ?done s2 = (Inr u, s')" for s2
  proof -
    from that obtain a s3 where e: "execute_sql sys ?cq t ?conn None s2 = (Inr a, s3)"
      and d: "?done a s3 = (Inr u, s')" by (rule andthen_Inr)
    from execute_sql_steps[OF e] obtain es where
      x: "trace s3 = trace s2 @ es" "steps es = [Launches (command t ?cq ?conn None)]" by blast
    from d have "trace s' = trace s3 @ [Print (Plain (''Database '' @ [CHR 0x27] @ dbn @ [CHR 0x27]
                                                   @ '' has been set up.''))]"
      by (auto simp: print_trace)
    with x have "trace s' = trace s2 @ (es @ [Print (Plain (''Database '' @ [CHR 0x27] @ dbn @ [CHR 0x27]
                                                   @ '' has been set up.''))])"
      "steps (es @ [Print (Plain (''Database '' @ [CHR 0x27] @ dbn @ [CHR 0x27]
                                                   @ '' has been set up.''))]) = [Launches (command t ?cq ?conn None)]"
      by (simp_all add: steps_append)
    then show ?thesis by blast
  qed
  obtain r1 s1 where e1: "execute_sql sys ?dq t ?conn None s = (r1, s1)"
    by (cases "execute_sql sys ?dq t ?conn None s")
  from execute_sql_steps[OF e1] obtain es1 where
    t1: "trace s1 = trace s @ es1" "steps es1 = [Launches (command t ?dq ?conn None)]" by blast
  have "\<exists>s2 ps. trace s2 = trace s1 @ ps \<and> steps ps = []
          \<and> andthen (execute_sql sys ?cq t ?conn None) ?done s2 = (Inr u, s')"
  proof (cases "t = ''bendsql''")
    case True
    show ?thesis
    proof (cases r1)
      case (Inl e)
      show ?thesis
      proof (cases e)
        case (SystemExit n)
        with assms e1 Inl True show ?thesis by (simp add: setup_database_def Let_def)
      next
        case (Raised pe)
        with assms e1 Inl True
        have "andthen (execute_sql sys ?cq t ?conn None) ?done
                (print (Plain (''Warning: Could not drop database (it may not exist): '' @ str_exception pe)) s1)
              = (Inr u, s')"
          by (simp add: setup_database_def Let_def)
        moreover have "trace (print (Plain (''Warning: Could not drop database (it may not exist): '' @ str_exception pe)) s1)
              = trace s1 @ [Print (Plain (''Warning: Could not drop database (it may not exist): '' @ str_exception pe))]"
          by (simp add: print_trace)
        moreover have "steps [Print (Plain (''Warning: Could not drop database (it may not exist): '' @ str_exception pe))] = []"
          by simp
        ultimately show ?thesis by blast
      qed
    next
      case (Inr x)
      with assms e1 True
      have "andthen (execute_sql sys ?cq t ?conn None) ?done s1 = (Inr u, s')"
        by (simp add: setup_database_def Let_def)
      moreover have "trace s1 = trace s1 @ []" "steps [] = []" by simp_all
      ultimately show ?thesis by blast
    qed
  next
    case False
    with assms have "andthen (execute_sql sys ?dq t dbn None)
                 (\<lambda>_. andthen (execute_sql sys ?cq t dbn None) ?done) s = (Inr u, s')"
      by (simp add: setup_database_def Let_def)
    then obtain a s1' where "execute_sql sys ?dq t dbn None s = (Inr a, s1')"
      and "andthen (execute_sql sys ?cq t dbn None) ?done s1' = (Inr u, s')"
      by (rule andthen_Inr)
    with e1 False have "andthen (execute_sql sys ?cq t ?conn None) ?done s1 = (Inr u, s')" by simp
    moreover have "trace s1 = trace s1 @ []" "steps [] = []" by simp_all
    ultimately show ?thesis by blast
  qed
  then obtain s2 ps where p: "trace s2 = trace s1 @ ps" "steps ps = []"
    and k: "andthen (execute_sql sys ?cq t ?conn None) ?done s2 = (Inr u, s')" by blast
  from finish[OF k] obtain es3 where
    f: "trace s' = trace s2 @ es3" "steps es3 = [Launches (command t ?cq ?conn None)]" by blast
  have "trace s' = trace s @ (es1 @ ps @ es3)" using t1(1) p(1) f(1) by simp
  moreover have "steps (es1 @ ps @ es3) = provision_steps t dbn"
    using t1(2) p(2) f(2) by (simp add: steps_append provision_steps_def Let_def)
  ultimately show ?thesis by blast
qed

section \<open>The modes of a run\<close>

lemma setup_and_execute_steps:
  assumes "setup_and_execute sys t base dbn w s = (Inr u, s')"
  shows "\<exists>es x y. trace s' = trace s @ es \<and> steps es = pipeline_steps t base dbn w x y"
proof -
  let ?dir = "if t = ''bendsql'' then ''bend'' else ''snow''"
  from assms have "andthen (setup_database sys dbn t)
           (\<lambda>_. andthen
                   (execute_sql_scripts sys t (base @ ''/'' @ ?dir @ ''/setup.sql'') dbn w)
                   (\<lambda>_. execute_sql_scripts sys t (base @ ''/action.sql'') dbn w)) s = (Inr u, s')"
    by (simp add: setup_and_execute_def Let_def)
  then obtain a1 s1 where p: "setup_database sys dbn t s = (Inr a1, s1)"
    and k1: "andthen (execute_sql_scripts sys t (base @ ''/'' @ ?dir @ ''/setup.sql'') dbn w)
                   (\<lambda>_. execute_sql_scripts sys t (base @ ''/action.sql'') dbn w) s1 = (Inr u, s')"
    by (rule andthen_Inr)
  from k1 obtain a2 s2 where q: "execute_sql_scripts sys t (base @ ''/'' @ ?dir @ ''/setup.sql'') dbn w s1 = (Inr a2, s2)"
    and r: "execute_sql_scripts sys t (base @ ''/action.sql'') dbn w s2 = (Inr u, s')"
    by (rule andthen_Inr)
  from setup_database_steps[OF p] obtain es1 where
    1: "trace s1 = trace s @ es1" "steps es1 = provision_steps t dbn" by blast
  from execute_sql_scripts_steps[OF q] obtain es2 x where
    2: "trace s2 = trace s1 @ es2" "steps es2 = script_steps t (base @ ''/'' @ ?dir @ ''/setup.sql'') x dbn w"
    by blast
  from execute_sql_scripts_steps[OF r] obtain es3 y where
    3: "trace s' = trace s2 @ es3" "steps es3 = script_steps t (base @ ''/action.sql'') y dbn w"
    by blast
  have "trace s' = trace s @ (es1 @ es2 @ es3)" using 1(1) 2(1) 3(1) by simp
  moreover have "steps (es1 @ es2 @ es3) = pipeline_steps t base dbn w x y"
    using 1(2) 2(2) 3(2) by (simp only: steps_append pipeline_steps_def)
  ultimately show ?thesis by blast
qed

lemma main_steps:
  assumes "main sys a s = (Inr result, s')"
  shows "(run_check_only a \<longrightarrow>
            (\<exists>c. steps (since s s') =
                   comparator_steps (''sql/'' @ test_case a @ ''/check.sql'') c (database a) (Some (warehouse a))))
         \<and> (\<not> run_check_only a \<and> runbend a \<longrightarrow>
            (\<exists>x y c. steps (since s s') =
                   pipeline_steps ''bendsql'' (''sql/'' @ test_case a) (database a) None x y
                   @ comparator_steps (''sql/'' @ test_case a @ ''/check.sql'') c (database a) (Some (warehouse a))))
         \<and> (\<not> run_check_only a \<and> \<not> runbend a \<and> runsnow a \<longrightarrow>
            (\<exists>x y c. steps (since s s') =
                   pipeline_steps ''snowsql'' (''sql/'' @ test_case a) (database a) (Some (warehouse a)) x y
                   @ comparator_steps (''sql/'' @ test_case a @ ''/check.sql'') c (database a) (Some (warehouse a))))
         \<and> (\<not> run_check_only a \<and> \<not> runbend a \<and> \<not> runsnow a \<longrightarrow>
            (\<exists>x y x' y' c. steps (since s s') =
                   pipeline_steps ''bendsql'' (''sql/'' @ test_case a) (database a) None x y
                   @ pipeline_steps ''snowsql'' (''sql/'' @ test_case a) (database a) (Some (warehouse a)) x' y'
                   @ comparator_steps (''sql/'' @ test_case a @ ''/check.sql'') c (database a) (Some (warehouse a))))"
proof -
  let ?base = "''sql/'' @ test_case a"
  let ?chk = "''sql/'' @ test_case a @ ''/check.sql''"
  let ?db = "database a"
  let ?wh = "Some (warehouse a)"
  have check: "\<exists>es c. trace s' = trace s0 @ es \<and> steps es = comparator_steps ?chk c ?db ?wh"
    if "run_check_sql sys ?db ?wh ?chk s0 = (Inr result, s')" for s0
    using run_check_sql_steps[OF that] by blast
  have one: "\<exists>x y c. steps (since s s') = pipeline_steps t ?base ?db w x y @ comparator_steps ?chk c ?db ?wh"
    if "andthen (setup_and_execute sys t ?base ?db w) (\<lambda>_. run_check_sql sys ?db ?wh ?chk) (print l s) = (Inr result, s')"
    for t w l
  proof -
    from that obtain u s1 where p: "setup_and_execute sys t ?base ?db w (print l s) = (Inr u, s1)"
      and c: "run_check_sql sys ?db ?wh ?chk s1 = (Inr result, s')" by (rule andthen_Inr)
    from setup_and_execute_steps[OF p] obtain es1 x y where
      1: "trace s1 = trace (print l s) @ es1" "steps es1 = pipeline_steps t ?base ?db w x y" by blast
    from check[OF c] obtain es2 c' where
      2: "trace s' = trace s1 @ es2" "steps es2 = comparator_steps ?chk c' ?db ?wh" by blast
    have "trace s' = trace s @ (Print l # es1 @ es2)" using 1(1) 2(1) by (simp add: print_trace)
    from since_append[OF this] 1(2) 2(2)
    have "steps (since s s') = pipeline_steps t ?base ?db w x y @ comparator_steps ?chk c' ?db ?wh"
      by (simp add: steps_append)
    then show ?thesis by blast
  qed
  show ?thesis
  proof (intro conjI impI)
    assume "run_check_only a"
    with assms have "run_check_sql sys ?db ?wh ?chk s = (Inr result, s')"
      by (simp add: main_def Let_def)
    from check[OF this] obtain es c where "trace s' = trace s @ es" "steps es = comparator_steps ?chk c ?db ?wh"
      by blast
    then show "\<exists>c. steps (since s s') = comparator_steps ?chk c ?db ?wh"
      using since_append by blast
  next
    assume "\<not> run_check_only a \<and> runbend a"
    with assms have "andthen (setup_and_execute sys ''bendsql'' ?base ?db None)
        (\<lambda>_. run_check_sql sys ?db ?wh ?chk)
        (print (Plain ''Setting up and executing scripts for bendsql...'') s) = (Inr result, s')"
      by (auto simp: main_def Let_def andthen_def split: prod.splits sum.splits)
    then show "\<exists>x y c. steps (since s s') =
                   pipeline_steps ''bendsql'' ?base ?db None x y @ comparator_steps ?chk c ?db ?wh"
      by (rule one)
  next
    assume "\<not> run_check_only a \<and> \<not> runbend a \<and> runsnow a"
    with assms have "andthen (setup_and_execute sys ''snowsql'' ?base ?db ?wh)
        (\<lambda>_. run_check_sql sys ?db ?wh ?chk)
        (print (Plain ''Setting up and executing scripts for snowsql...'') s) = (Inr result, s')"
      by (auto simp: main_def Let_def andthen_def split: prod.splits sum.splits)
    then show "\<exists>x y c. steps (since s s') =
                   pipeline_steps ''snowsql'' ?base ?db ?wh x y @ comparator_steps ?chk c ?db ?wh"
      by (rule one)
  next
    assume m: "\<not> run_check_only a \<and> \<not> runbend a \<and> \<not> runsnow a"
    let ?s0 = "print (Plain ''Setting up and executing scripts for both bendsql and snowsql...'') s"
    from assms m have "andthen
        (\<lambda>s'. andthen (setup_and_execute sys ''bendsql'' ?base ?db None)
                         (\<lambda>_. setup_and_execute sys ''snowsql'' ?base ?db ?wh) s')
        (\<lambda>_. run_check_sql sys ?db ?wh ?chk) ?s0 = (Inr result, s')"
      by (auto simp: main_def Let_def andthen_def split: prod.splits sum.splits)
    then obtain u2 s2 where b: "andthen (setup_and_execute sys ''bendsql'' ?base ?db None)
                         (\<lambda>_. setup_and_execute sys ''snowsql'' ?base ?db ?wh) ?s0 = (Inr u2, s2)"
      and c: "run_check_sql sys ?db ?wh ?chk s2 = (Inr result, s')" by (rule andthen_Inr)
    from b obtain u1 s1 where p1: "setup_and_execute sys ''bendsql'' ?base ?db None ?s0 = (Inr u1, s1)"
      and p2: "setup_and_execute sys ''snowsql'' ?base ?db ?wh s1 = (Inr u2, s2)" by (rule andthen_Inr)
    from setup_and_execute_steps[OF p1] obtain es1 x y where
      1: "trace s1 = trace ?s0 @ es1" "steps es1 = pipeline_steps ''bendsql'' ?base ?db None x y" by blast
    from setup_and_execute_steps[OF p2] obtain es2 x' y' where
      2: "trace s2 = trace s1 @ es2" "steps es2 = pipeline_steps ''snowsql'' ?base ?db ?wh x' y'" by blast
    from check[OF c] obtain es3 c' where
      3: "trace s' = trace s2 @ es3" "steps es3 = comparator_steps ?chk c' ?db ?wh" by blast
    have "trace s' = trace s @ (Print (Plain ''Setting up and executing scripts for both bendsql and snowsql...'') # es1 @ es2 @ es3)"
      using 1(1) 2(1) 3(1) by (simp add: print_trace)
    from since_append[OF this] 1(2) 2(2) 3(2)
    have "steps (since s s') = pipeline_steps ''bendsql'' ?base ?db None x y
            @ pipeline_steps ''snowsql'' ?base ?db ?wh x' y' @ comparator_steps ?chk c' ?db ?wh"
      by (simp add: steps_append)
    then show "\<exists>x y x' y' c. steps (since s s') = pipeline_steps ''bendsql'' ?base ?db None x y
            @ pipeline_steps ''snowsql'' ?base ?db ?wh x' y' @ comparator_steps ?chk c ?db ?wh"
      by blast
  qed
qed

lemma andthen_cases:
  assumes "andthen m f s = (r, s')"
  obtains (failed) e where "m s = (Inl e, s')" "r = Inl e"
        | (went_on) a s1 where "m s = (Inr a, s1)" "f a s1 = (r, s')"
  using assms by (auto simp: andthen_def split: prod.splits sum.splits)

lemma run_queries_prefix:
  "run_queries sys t d w qs s = (r, s') \<Longrightarrow>
   \<exists>es. trace s' = trace s @ es
     \<and> prefix (steps es) (map (\<lambda>q. Launches (command t q d w)) (statements qs))"
proof (induction qs arbitrary: s)
  case Nil
  then have "trace s' = trace s @ []" by simp
  then show ?case by (intro exI[of _ "[]"]) simp
next
  case (Cons q qs)
  show ?case
  proof (cases "strip q = []")
    case True
    with Cons.prems have "run_queries sys t d w qs s = (r, s')" by simp
    from Cons.IH[OF this] True show ?thesis by (simp add: statements_def)
  next
    case False
    then have st: "statements (q # qs) = q # statements qs" by (simp add: statements_def)
    obtain r1 s1 where e: "execute_sql sys q t d w s = (r1, s1)"
      by (cases "execute_sql sys q t d w s")
    from execute_sql_steps[OF e] obtain es1 where
      t1: "trace s1 = trace s @ es1" and ru1: "steps es1 = [Launches (command t q d w)]"
      by auto
    show ?thesis
    proof (cases r1)
      case (Inl x)
      with Cons.prems False e have "s' = s1" by simp
      with t1 ru1 show ?thesis by (intro exI[of _ es1]) (simp add: st)
    next
      case (Inr out)
      with Cons.prems False e have "run_queries sys t d w qs s1 = (r, s')" by simp
      from Cons.IH[OF this] obtain es2 where
        a: "trace s' = trace s1 @ es2"
           "prefix (steps es2) (map (\<lambda>q. Launches (command t q d w)) (statements qs))"
        by blast
      have "trace s' = trace s @ (es1 @ es2)" using a(1) t1 by simp
      moreover have "prefix (steps (es1 @ es2)) (map (\<lambda>q. Launches (command t q d w)) (statements (q # qs)))"
        using a(2) ru1 by (simp add: steps_append st)
      ultimately show ?thesis by blast
    qed
  qed
qed

lemma execute_sql_scripts_prefix:
  assumes "execute_sql_scripts sys t path d w s = (r, s')"
  shows "\<exists>es content. trace s' = trace s @ es \<and> prefix (steps es) (script_steps t path content d w)"
proof -
  let ?p = "Print (Plain (''Executing SQL scripts from: '' @ path @ '' using '' @ t))"
  let ?s1 = "print (Plain (''Executing SQL scripts from: '' @ path @ '' using '' @ t)) s"
  from assms have "andthen (open_read sys path)
           (\<lambda>sql_script. run_queries sys t d w (split_on CHR '';'' sql_script)) ?s1 = (r, s')"
    by (simp add: execute_sql_scripts_def Let_def)
  then show ?thesis
  proof (cases rule: andthen_cases)
    case (failed e)
    then have "trace s' = trace ?s1 @ [Open path (fst (read_file sys path (world ?s1)))]"
      and "\<exists>pe. fst (read_file sys path (world ?s1)) = Inl pe"
      by (auto simp: open_read_def Let_def emit_def split: prod.splits sum.splits)
    then obtain pe where "trace s' = trace s @ [?p, Open path (Inl pe)]"
      by (auto simp: print_trace)
    moreover have "prefix (steps [?p, Open path (Inl pe)]) (script_steps t path [] d w)" by simp
    ultimately show ?thesis by blast
  next
    case (went_on content s2)
    from run_queries_prefix[OF went_on(2)] obtain es where
      a: "trace s' = trace s2 @ es"
         "prefix (steps es) (map (\<lambda>q. Launches (command t q d w)) (statements (split_on CHR '';'' content)))"
      by blast
    have "trace s' = trace s @ ([?p, Open path (Inr content)] @ es)"
      using a(1) open_read_steps[OF went_on(1)] by (simp add: print_trace)
    moreover have "prefix (steps ([?p, Open path (Inr content)] @ es)) (script_steps t path content d w)"
      using a(2) by (simp add: script_steps_def)
    ultimately show ?thesis by blast
  qed
qed

lemma setup_database_prefix:
  assumes "setup_database sys dbn t s = (r, s')"
  shows "\<exists>es. trace s' = trace s @ es \<and> prefix (steps es) (provision_steps t dbn)"
proof -
  let ?dq = "''DROP DATABASE IF EXISTS '' @ dbn @ '';''"
  let ?cq = "''CREATE DATABASE '' @ dbn @ '';''"
  let ?done = "(\<lambda>_ s'. (Inr (), print (Plain (''Database '' @ [CHR 0x27] @ dbn @ [CHR 0x27]
                                                   @ '' has been set up.'')) s')) :: string \<Rightarrow> ('a, unit) prog"
  let ?conn = "if t = ''bendsql'' then ''default'' else dbn"
  have finish: "\<exists>es. trace s' = trace s2 @ es \<and> steps es = [Launches (command t ?cq ?conn None)]"
    if "andthen (execute_sql sys ?cq t ?conn None) ?done s2 = (r, s')" for s2
    using that
  proof (cases rule: andthen_cases)
    case (failed e)
    from execute_sql_steps[OF failed(1)] show ?thesis .
  next
    case (went_on a s3)
    from execute_sql_steps[OF went_on(1)] obtain es where
      x: "trace s3 = trace s2 @ es" "steps es = [Launches (command t ?cq ?conn None)]" by blast
    from went_on(2) have "trace s' = trace s3 @ [Print (Plain (''Database '' @ [CHR 0x27] @ dbn @ [CHR 0x27]
                                                   @ '' has been set up.''))]"
      by (auto simp: print_trace)
    with x have "trace s' = trace s2 @ (es @ [Print (Plain (''Database '' @ [CHR 0x27] @ dbn @ [CHR 0x27]
                                                   @ '' has been set up.''))])"
      "steps (es @ [Print (Plain (''Database '' @ [CHR 0x27] @ dbn @ [CHR 0x27]
                                                   @ '' has been set up.''))]) = [Launches (command t ?cq ?conn None)]"
      by (simp_all add: steps_append)
    then show ?thesis by blast
  qed
  obtain r1 s1 where e1: "execute_sql sys ?dq t ?conn None s = (r1, s1)"
    by (cases "execute_sql sys ?dq t ?conn None s")
  from execute_sql_steps[OF e1] obtain es1 where
    t1: "trace s1 = trace s @ es1" "steps es1 = [Launches (command t ?dq ?conn None)]" by blast
  have "s' = s1 \<or> (\<exists>s2 ps. trace s2 = trace s1 @ ps \<and> steps ps = []
          \<and> andthen (execute_sql sys ?cq t ?conn None) ?done s2 = (r, s'))"
  proof (cases "t = ''bendsql''")
    case True
    show ?thesis
    proof (cases r1)
      case (Inl e)
      show ?thesis
      proof (cases e)
        case (SystemExit n)
        with assms e1 Inl True show ?thesis by (simp add: setup_database_def Let_def)
      next
        case (Raised pe)
        with assms e1 Inl True
        have "andthen (execute_sql sys ?cq t ?conn None) ?done
                (print (Plain (''Warning: Could not drop database (it may not exist): '' @ str_exception pe)) s1)
              = (r, s')"
          by (simp add: setup_database_def Let_def)
        moreover have "trace (print (Plain (''Warning: Could not drop database (it may not exist): '' @ str_exception pe)) s1)
              = trace s1 @ [Print (Plain (''Warning: Could not drop database (it may not exist): '' @ str_exception pe))]"
          by (simp add: print_trace)
        moreover have "steps [Print (Plain (''Warning: Could not drop database (it may not exist): '' @ str_exception pe))] = []"
          by simp
        ultimately show ?thesis by blast
      qed
    next
      case (Inr x)
      with assms e1 True
      have "andthen (execute_sql sys ?cq t ?conn None) ?done s1 = (r, s')"
        by (simp add: setup_database_def Let_def)
      moreover have "trace s1 = trace s1 @ []" "steps [] = []" by simp_all
      ultimately show ?thesis by blast
    qed
  next
    case False
    with assms have "andthen (execute_sql sys ?dq t dbn None)
                 (\<lambda>_. andthen (execute_sql sys ?cq t dbn None) ?done) s = (r, s')"
      by (simp add: setup_database_def Let_def)
    then show ?thesis
    proof (cases rule: andthen_cases)
      case (failed e)
      with e1 False show ?thesis by simp
    next
      case (went_on a s1')
      with e1 False have "andthen (execute_sql sys ?cq t ?conn None) ?done s1 = (r, s')" by simp
      moreover have "trace s1 = trace s1 @ []" "steps [] = []" by simp_all
      ultimately show ?thesis by blast
    qed
  qed
  then show ?thesis
  proof
    assume "s' = s1"
    with t1 show ?thesis by (intro exI[of _ es1]) (simp add: provision_steps_def Let_def)
  next
    assume "\<exists>s2 ps. trace s2 = trace s1 @ ps \<and> steps ps = []
          \<and> andthen (execute_sql sys ?cq t ?conn None) ?done s2 = (r, s')"
    then obtain s2 ps where p: "trace s2 = trace s1 @ ps" "steps ps = []"
      and k: "andthen (execute_sql sys ?cq t ?conn None) ?done s2 = (r, s')" by blast
    from finish[OF k] obtain es3 where
      f: "trace s' = trace s2 @ es3" "steps es3 = [Launches (command t ?cq ?conn None)]" by blast
    have "trace s' = trace s @ (es1 @ ps @ es3)" using t1(1) p(1) f(1) by simp
    moreover have "steps (es1 @ ps @ es3) = provision_steps t dbn"
      using t1(2) p(2) f(2) by (simp add: steps_append provision_steps_def Let_def)
    ultimately show ?thesis by (metis prefix_order.order_refl)
  qed
qed


lemma setup_and_execute_prefix:
  assumes "setup_and_execute sys t base dbn w s = (r, s')"
  shows "\<exists>es x y. trace s' = trace s @ es \<and> prefix (steps es) (pipeline_steps t base dbn w x y)"
proof -
  let ?dir = "if t = ''bendsql'' then ''bend'' else ''snow''"
  from assms have "andthen (setup_database sys dbn t)
           (\<lambda>_. andthen
                   (execute_sql_scripts sys t (base @ ''/'' @ ?dir @ ''/setup.sql'') dbn w)
                   (\<lambda>_. execute_sql_scripts sys t (base @ ''/action.sql'') dbn w)) s = (r, s')"
    by (simp add: setup_and_execute_def Let_def)
  then show ?thesis
  proof (cases rule: andthen_cases)
    case (failed e)
    from setup_database_prefix[OF failed(1)] obtain es where
      "trace s' = trace s @ es" "prefix (steps es) (provision_steps t dbn)" by blast
    then have "trace s' = trace s @ es" "prefix (steps es) (pipeline_steps t base dbn w [] [])"
      by (simp_all add: pipeline_steps_def prefix_prefix)
    then show ?thesis by blast
  next
    case (went_on a1 s1)
    from setup_database_steps[OF went_on(1)] obtain es1 where
      1: "trace s1 = trace s @ es1" "steps es1 = provision_steps t dbn" by blast
    from went_on(2) show ?thesis
    proof (cases rule: andthen_cases)
      case (failed e)
      from execute_sql_scripts_prefix[OF failed(1)] obtain es2 x where
        2: "trace s' = trace s1 @ es2"
           "prefix (steps es2) (script_steps t (base @ ''/'' @ ?dir @ ''/setup.sql'') x dbn w)" by blast
      have "trace s' = trace s @ (es1 @ es2)" using 1(1) 2(1) by simp
      moreover have "prefix (steps (es1 @ es2)) (pipeline_steps t base dbn w x [])"
        using 1(2) 2(2) by (simp only: steps_append pipeline_steps_def same_prefix_prefix prefix_prefix)
      ultimately show ?thesis by blast
    next
      case (went_on a2 s2)
      from execute_sql_scripts_steps[OF went_on(1)] obtain es2 x where
        2: "trace s2 = trace s1 @ es2"
           "steps es2 = script_steps t (base @ ''/'' @ ?dir @ ''/setup.sql'') x dbn w" by blast
      from execute_sql_scripts_prefix[OF went_on(2)] obtain es3 y where
        3: "trace s' = trace s2 @ es3" "prefix (steps es3) (script_steps t (base @ ''/action.sql'') y dbn w)"
        by blast
      have "trace s' = trace s @ (es1 @ es2 @ es3)" using 1(1) 2(1) 3(1) by simp
      moreover have "prefix (steps (es1 @ es2 @ es3)) (pipeline_steps t base dbn w x y)"
        using 1(2) 2(2) 3(2) by (simp only: steps_append pipeline_steps_def same_prefix_prefix)
      ultimately show ?thesis by blast
    qed
  qed
qed

lemma check_loop_prefix:
  "check_loop sys db wh qs (f0, p0) s = (r, s') \<Longrightarrow>
   \<exists>es. trace s' = trace s @ es
     \<and> prefix (steps es) (concat (map (\<lambda>q. map Launches (both_commands db wh q)) (statements qs)))"
proof (induction qs arbitrary: f0 p0 s)
  case Nil
  then have "trace s' = trace s @ []" by simp
  then show ?case by (intro exI[of _ "[]"]) simp
next
  case (Cons q qs)
  show ?case
  proof (cases "strip q = []")
    case True
    with Cons.prems have "check_loop sys db wh qs (f0, p0) s = (r, s')" by simp
    from Cons.IH[OF this] True show ?thesis by (simp add: statements_def)
  next
    case False
    have st: "statements (q # qs) = q # statements qs" using False by (simp add: statements_def)
    let ?p = "Print (Colored (''Preparing to run '' @ query_identifier q @ ''...'') ''yellow'')"
    obtain t0 s2 where n0: "now sys (print (Colored (''Preparing to run '' @ query_identifier q @ ''...'') ''yellow'') s) = (t0, s2)"
      by (cases "now sys (print (Colored (''Preparing to run '' @ query_identifier q @ ''...'') ''yellow'') s)")
    have tr2: "trace s2 = trace s @ [?p, Time t0]"
      using now_trace[OF n0] by (simp add: print_trace)
    obtain rb s3 where eb: "execute_sql sys q ''bendsql'' db None s2 = (rb, s3)"
      by (cases "execute_sql sys q ''bendsql'' db None s2")
    from execute_sql_steps[OF eb] obtain es3 where tr3: "trace s3 = trace s2 @ es3"
      and st3: "steps es3 = [Launches (command ''bendsql'' q db None)]" by blast
    show ?thesis
    proof (cases rb)
      case (Inl e)
      with Cons.prems False n0 eb have "s' = s3"
        by (simp add: fetch_query_results_def Let_def)
      then have "trace s' = trace s @ ([?p, Time t0] @ es3)" using tr2 tr3 by simp
      moreover have "prefix (steps ([?p, Time t0] @ es3))
           (concat (map (\<lambda>q. map Launches (both_commands db wh q)) (statements (q # qs))))"
        using st3 by (simp add: st both_commands_def)
      ultimately show ?thesis by blast
    next
      case (Inr bend_result)
      obtain rs s4 where es: "execute_sql sys q ''snowsql'' db wh s3 = (rs, s4)"
        by (cases "execute_sql sys q ''snowsql'' db wh s3")
      from execute_sql_steps[OF es] obtain es4 where tr4: "trace s4 = trace s3 @ es4"
        and st4: "steps es4 = [Launches (command ''snowsql'' q db wh)]" by blast
      have both: "steps ([?p, Time t0] @ es3 @ es4) = map Launches (both_commands db wh q)"
        using st3 st4 by (simp add: steps_append both_commands_def)
      show ?thesis
      proof (cases rs)
        case (Inl e)
        with Cons.prems False n0 eb es \<open>rb = Inr bend_result\<close> have "s' = s4"
          by (simp add: fetch_query_results_def Let_def)
        then have "trace s' = trace s @ ([?p, Time t0] @ es3 @ es4)" using tr2 tr3 tr4 by simp
        moreover have "prefix (steps ([?p, Time t0] @ es3 @ es4))
           (concat (map (\<lambda>q. map Launches (both_commands db wh q)) (statements (q # qs))))"
          unfolding both by (simp add: st)
        ultimately show ?thesis by blast
      next
        case (Inr snow_result)
        obtain t1 s5 where n1: "now sys s4 = (t1, s5)" by (cases "now sys s4")
        have tr5: "trace s5 = trace s4 @ [Time t1]" by (rule now_trace[OF n1])
        define s6 where "s6 = (if bend_result \<noteq> snow_result then
           (print (Colored (''snowsql:\<newline>'' @ snow_result) ''red'')
             (print (Colored (''bendsql:\<newline>'' @ bend_result) ''red'')
               (print (Plain ''Differences:\<newline>'')
                 (print (Colored (query_identifier q @ '':\<newline>'' @ q) ''red'')
                   (print (Colored ''DIFFERENCE FOUND\<newline>'' ''red'') s5)))))
           else (print (Colored bend_result ''green'')
                  (print (Colored (''OK - '' @ query_identifier q) ''green'') s5)))"
        obtain ps where tr6: "trace s6 = trace s5 @ ps" and tlp: "steps ps = []"
          by (cases "bend_result \<noteq> snow_result") (auto simp: s6_def print_trace)
        have "\<exists>acc. check_loop sys db wh qs acc s6 = (r, s')"
        proof (cases "bend_result = snow_result")
          case True
          with Cons.prems False n0 eb es \<open>rb = Inr bend_result\<close> Inr n1 show ?thesis
            by (simp add: fetch_query_results_def s6_def Let_def) blast
        next
          case False
          with Cons.prems \<open>strip q \<noteq> []\<close> n0 eb es \<open>rb = Inr bend_result\<close> Inr n1 show ?thesis
            by (simp add: fetch_query_results_def s6_def Let_def) blast
        qed
        then obtain f1 p1 where rec: "check_loop sys db wh qs (f1, p1) s6 = (r, s')" by auto
        from Cons.IH[OF rec] obtain es7 where
          a: "trace s' = trace s6 @ es7"
             "prefix (steps es7) (concat (map (\<lambda>q. map Launches (both_commands db wh q)) (statements qs)))"
          by blast
        have "trace s' = trace s @ (([?p, Time t0] @ es3 @ es4) @ [Time t1] @ ps @ es7)"
          using tr2 tr3 tr4 tr5 tr6 a(1) by simp
        moreover have "prefix (steps (([?p, Time t0] @ es3 @ es4) @ [Time t1] @ ps @ es7))
           (concat (map (\<lambda>q. map Launches (both_commands db wh q)) (statements (q # qs))))"
          using a(2) tlp unfolding steps_append[of "[?p, Time t0] @ es3 @ es4"] both
          by (simp add: steps_append st)
        ultimately show ?thesis by blast
      qed
    qed
  qed
qed

lemma run_check_sql_prefix:
  assumes "run_check_sql sys db wh path s = (Inl e, s')"
  shows "\<exists>es content. trace s' = trace s @ es \<and> prefix (steps es) (comparator_steps path content db wh)"
proof -
  obtain t0 s1 where n0: "now sys s = (t0, s1)" by (cases "now sys s")
  obtain r2 s1' where o': "open_read sys path s1 = (r2, s1')" by (cases "open_read sys path s1")
  show ?thesis
  proof (cases r2)
    case (Inl x)
    with assms n0 o' have "s' = s1'" by (simp add: run_check_sql_def andthen_def)
    moreover from o' Inl have "\<exists>pe. trace s1' = trace s1 @ [Open path (Inl pe)]"
      by (auto simp: open_read_def Let_def emit_def split: prod.splits sum.splits)
    ultimately obtain pe where "trace s' = trace s @ [Time t0, Open path (Inl pe)]"
      using now_trace[OF n0] by auto
    moreover have "prefix (steps [Time t0, Open path (Inl pe)]) (comparator_steps path [] db wh)" by simp
    ultimately show ?thesis by blast
  next
    case (Inr content)
    with o' have o: "open_read sys path s1 = (Inr content, s1')" by simp
    obtain r3 s2 where c: "check_loop sys db wh (split_on CHR '';'' content) ([], []) s1' = (r3, s2)"
      by (cases "check_loop sys db wh (split_on CHR '';'' content) ([], []) s1'")
    from assms n0 o c have "s' = s2"
      by (cases r3) (auto simp: run_check_sql_def andthen_def Let_def split: prod.splits)
    with check_loop_prefix[OF c] obtain es where
      a: "trace s' = trace s1' @ es"
         "prefix (steps es) (concat (map (\<lambda>q. map Launches (both_commands db wh q))
                                    (statements (split_on CHR '';'' content))))"
      by blast
    have "trace s' = trace s @ ([Time t0, Open path (Inr content)] @ es)"
      using a(1) open_read_steps[OF o] now_trace[OF n0] by simp
    moreover have "prefix (steps ([Time t0, Open path (Inr content)] @ es)) (comparator_steps path content db wh)"
      using a(2) by (simp add: comparator_steps_def)
    ultimately show ?thesis by blast
  qed
qed


lemma main_prefix:
  assumes "main sys a s = (Inl e, s')"
  shows "\<exists>x y x' y' c. prefix (steps (since s s')) (mode_steps a x y x' y' c)"
proof -
  let ?base = "''sql/'' @ test_case a"
  let ?chk = "''sql/'' @ test_case a @ ''/check.sql''"
  let ?db = "database a"
  let ?wh = "Some (warehouse a)"
  have one: "\<exists>x y c. prefix (steps (since s s')) (pipeline_steps t ?base ?db w x y @ comparator_steps ?chk c ?db ?wh)"
    if "andthen (setup_and_execute sys t ?base ?db w) (\<lambda>_. run_check_sql sys ?db ?wh ?chk) (print l s) = (Inl e, s')"
    for t w l
    using that
  proof (cases rule: andthen_cases)
    case (failed e')
    from setup_and_execute_prefix[OF failed(1)] obtain es x y where
      1: "trace s' = trace (print l s) @ es" "prefix (steps es) (pipeline_steps t ?base ?db w x y)" by blast
    have "trace s' = trace s @ (Print l # es)" using 1(1) by (simp add: print_trace)
    from since_append[OF this] 1(2)
    have "prefix (steps (since s s')) (pipeline_steps t ?base ?db w x y @ comparator_steps ?chk [] ?db ?wh)"
      by (simp add: prefix_prefix)
    then show ?thesis by blast
  next
    case (went_on u s1)
    from setup_and_execute_steps[OF went_on(1)] obtain es1 x y where
      1: "trace s1 = trace (print l s) @ es1" "steps es1 = pipeline_steps t ?base ?db w x y" by blast
    from run_check_sql_prefix[OF went_on(2)] obtain es2 c where
      2: "trace s' = trace s1 @ es2" "prefix (steps es2) (comparator_steps ?chk c ?db ?wh)" by blast
    have "trace s' = trace s @ (Print l # es1 @ es2)" using 1(1) 2(1) by (simp add: print_trace)
    from since_append[OF this] 1(2) 2(2)
    have "prefix (steps (since s s')) (pipeline_steps t ?base ?db w x y @ comparator_steps ?chk c ?db ?wh)"
      by (simp add: steps_append)
    then show ?thesis by blast
  qed
  consider (check) "run_check_only a" | (bend) "\<not> run_check_only a" "runbend a"
    | (snow) "\<not> run_check_only a" "\<not> runbend a" "runsnow a"
    | (both) "\<not> run_check_only a" "\<not> runbend a" "\<not> runsnow a" by blast
  then show ?thesis
  proof cases
    case check
    with assms have "run_check_sql sys ?db ?wh ?chk s = (Inl e, s')"
      by (simp add: main_def Let_def)
    from run_check_sql_prefix[OF this] obtain es c where
      "trace s' = trace s @ es" "prefix (steps es) (comparator_steps ?chk c ?db ?wh)" by blast
    with since_append[of s' s es] have "prefix (steps (since s s')) (mode_steps a [] [] [] [] c)"
      using check by (simp add: mode_steps_def Let_def)
    then show ?thesis by blast
  next
    case bend
    with assms have "andthen (setup_and_execute sys ''bendsql'' ?base ?db None)
        (\<lambda>_. run_check_sql sys ?db ?wh ?chk)
        (print (Plain ''Setting up and executing scripts for bendsql...'') s) = (Inl e, s')"
      by (auto simp: main_def Let_def andthen_def split: prod.splits sum.splits)
    from one[OF this] obtain x y c where
      "prefix (steps (since s s')) (pipeline_steps ''bendsql'' ?base ?db None x y @ comparator_steps ?chk c ?db ?wh)"
      by blast
    with bend have "prefix (steps (since s s')) (mode_steps a x y [] [] c)"
      by (simp add: mode_steps_def Let_def)
    then show ?thesis by blast
  next
    case snow
    with assms have "andthen (setup_and_execute sys ''snowsql'' ?base ?db ?wh)
        (\<lambda>_. run_check_sql sys ?db ?wh ?chk)
        (print (Plain ''Setting up and executing scripts for snowsql...'') s) = (Inl e, s')"
      by (auto simp: main_def Let_def andthen_def split: prod.splits sum.splits)
    from one[OF this] obtain x y c where
      "prefix (steps (since s s')) (pipeline_steps ''snowsql'' ?base ?db ?wh x y @ comparator_steps ?chk c ?db ?wh)"
      by blast
    with snow have "prefix (steps (since s s')) (mode_steps a x y [] [] c)"
      by (simp add: mode_steps_def Let_def)
    then show ?thesis by blast
  next
    case both
    let ?l = "Print (Plain ''Setting up and executing scripts for both bendsql and snowsql...'')"
    let ?s0 = "print (Plain ''Setting up and executing scripts for both bendsql and snowsql...'') s"
    have ms: "mode_steps a x y x' y' c = pipeline_steps ''bendsql'' ?base ?db None x y
              @ pipeline_steps ''snowsql'' ?base ?db ?wh x' y' @ comparator_steps ?chk c ?db ?wh"
      for x y x' y' c
      using both by (simp add: mode_steps_def Let_def)
    from assms both have "andthen
        (\<lambda>s'. andthen (setup_and_execute sys ''bendsql'' ?base ?db None)
                         (\<lambda>_. setup_and_execute sys ''snowsql'' ?base ?db ?wh) s')
        (\<lambda>_. run_check_sql sys ?db ?wh ?chk) ?s0 = (Inl e, s')"
      by (auto simp: main_def Let_def andthen_def split: prod.splits sum.splits)
    then show ?thesis
    proof (cases rule: andthen_cases)
      case (failed e')
      from failed(1) show ?thesis
      proof (cases rule: andthen_cases)
        case (failed e'')
        from setup_and_execute_prefix[OF failed(1)] obtain es x y where
          1: "trace s' = trace ?s0 @ es" "prefix (steps es) (pipeline_steps ''bendsql'' ?base ?db None x y)"
          by blast
        have "trace s' = trace s @ (?l # es)" using 1(1) by (simp add: print_trace)
        from since_append[OF this] 1(2)
        have "prefix (steps (since s s')) (mode_steps a x y [] [] [])"
          unfolding ms by (simp add: prefix_prefix)
        then show ?thesis by blast
      next
        case (went_on u1 s1)
        from setup_and_execute_steps[OF went_on(1)] obtain es1 x y where
          1: "trace s1 = trace ?s0 @ es1" "steps es1 = pipeline_steps ''bendsql'' ?base ?db None x y" by blast
        from setup_and_execute_prefix[OF went_on(2)] obtain es2 x' y' where
          2: "trace s' = trace s1 @ es2" "prefix (steps es2) (pipeline_steps ''snowsql'' ?base ?db ?wh x' y')"
          by blast
        have "trace s' = trace s @ (?l # es1 @ es2)" using 1(1) 2(1) by (simp add: print_trace)
        from since_append[OF this] 1(2) 2(2)
        have "prefix (steps (since s s')) (mode_steps a x y x' y' [])"
          unfolding ms by (simp add: steps_append prefix_prefix)
        then show ?thesis by blast
      qed
    next
      case (went_on u2 s2)
      from went_on(1) obtain u1 s1 where p1: "setup_and_execute sys ''bendsql'' ?base ?db None ?s0 = (Inr u1, s1)"
        and p2: "setup_and_execute sys ''snowsql'' ?base ?db ?wh s1 = (Inr u2, s2)" by (rule andthen_Inr)
      from setup_and_execute_steps[OF p1] obtain es1 x y where
        1: "trace s1 = trace ?s0 @ es1" "steps es1 = pipeline_steps ''bendsql'' ?base ?db None x y" by blast
      from setup_and_execute_steps[OF p2] obtain es2 x' y' where
        2: "trace s2 = trace s1 @ es2" "steps es2 = pipeline_steps ''snowsql'' ?base ?db ?wh x' y'" by blast
      from run_check_sql_prefix[OF went_on(2)] obtain es3 c where
        3: "trace s' = trace s2 @ es3" "prefix (steps es3) (comparator_steps ?chk c ?db ?wh)" by blast
      have "trace s' = trace s @ (?l # es1 @ es2 @ es3)" using 1(1) 2(1) 3(1) by (simp add: print_trace)
      from since_append[OF this] 1(2) 2(2) 3(2)
      have "prefix (steps (since s s')) (mode_steps a x y x' y' c)"
        unfolding ms by (simp add: steps_append)
      then show ?thesis by blast
    qed
  qed
qed

text \<open>
  Claim C8. The files read and the processes run by a run are, in this order, those of
  its mode: with \<open>--run-check-only\<close>, those of the comparison on \<open>check.sql\<close> and nothing
  before them; with \<open>--runbend\<close>, the pipeline of bendsql and then the comparison; with
  \<open>--runsnow\<close>, the pipeline of snowsql and then the comparison; with none of the three,
  the whole pipeline of bendsql, then the whole pipeline of snowsql, then the comparison.
  A pipeline is the provisioning of its engine, its \<open>setup.sql\<close> and \<open>action.sql\<close>, each
  statement run on that engine alone; the comparison runs every statement of \<open>check.sql\<close>
  on bendsql and on snowsql, whatever the mode. A run that reaches its end has done all
  the steps of its mode; a run that stops has done a beginning of them, so nothing of a
  later part has happened before an earlier part is complete.
\<close>

theorem run_modes:
  assumes "main sys a s = (r, s')"
  shows "\<exists>x y x' y' c.
           prefix (steps (since s s')) (mode_steps a x y x' y' c)
           \<and> ((\<exists>result. r = Inr result) \<longrightarrow> steps (since s s') = mode_steps a x y x' y' c)"
proof (cases r)
  case (Inl e)
  with assms have "main sys a s = (Inl e, s')" by simp
  from main_prefix[OF this] Inl show ?thesis by auto
next
  case (Inr result)
  with assms have m: "main sys a s = (Inr result, s')" by simp
  note ms = main_steps[OF m]
  consider (check) "run_check_only a" | (bend) "\<not> run_check_only a" "runbend a"
    | (snow) "\<not> run_check_only a" "\<not> runbend a" "runsnow a"
    | (both) "\<not> run_check_only a" "\<not> runbend a" "\<not> runsnow a" by blast
  then have "\<exists>x y x' y' c. steps (since s s') = mode_steps a x y x' y' c"
  proof cases
    case check
    with ms obtain c where "steps (since s s') =
        comparator_steps (''sql/'' @ test_case a @ ''/check.sql'') c (database a) (Some (warehouse a))"
      by blast
    with check have "steps (since s s') = mode_steps a [] [] [] [] c"
      by (simp add: mode_steps_def Let_def)
    then show ?thesis by blast
  next
    case bend
    with ms obtain x y c where "steps (since s s') =
        pipeline_steps ''bendsql'' (''sql/'' @ test_case a) (database a) None x y
        @ comparator_steps (''sql/'' @ test_case a @ ''/check.sql'') c (database a) (Some (warehouse a))"
      by blast
    with bend have "steps (since s s') = mode_steps a x y [] [] c"
      by (simp add: mode_steps_def Let_def)
    then show ?thesis by blast
  next
    case snow
    with ms obtain x y c where "steps (since s s') =
        pipeline_steps ''snowsql'' (''sql/'' @ test_case a) (database a) (Some (warehouse a)) x y
        @ comparator_steps (''sql/'' @ test_case a @ ''/check.sql'') c (database a) (Some (warehouse a))"
      by blast
    with snow have "steps (since s s') = mode_steps a x y [] [] c"
      by (simp add: mode_steps_def Let_def)
    then show ?thesis by blast
  next
    case both
    with ms obtain x y x' y' c where "steps (since s s') =
        pipeline_steps ''bendsql'' (''sql/'' @ test_case a) (database a) None x y
        @ pipeline_steps ''snowsql'' (''sql/'' @ test_case a) (database a) (Some (warehouse a)) x' y'
        @ comparator_steps (''sql/'' @ test_case a @ ''/check.sql'') c (database a) (Some (warehouse a))"
      by blast
    with both have "steps (since s s') = mode_steps a x y x' y' c"
      by (simp add: mode_steps_def Let_def)
    then show ?thesis by blast
  qed
  then obtain x y x' y' c where "steps (since s s') = mode_steps a x y x' y' c" by blast
  then have "prefix (steps (since s s')) (mode_steps a x y x' y' c)
           \<and> ((\<exists>result. r = Inr result) \<longrightarrow> steps (since s s') = mode_steps a x y x' y' c)"
    by simp
  then show ?thesis by blast
qed

lemma texts_read_append: "texts_read (xs @ ys) = texts_read xs @ texts_read ys"
  by (induction xs rule: texts_read.induct) auto

lemma texts_read_launches: "texts_read (map Launches cmds) = []"
  by (induction cmds) auto

lemma texts_read_script: "texts_read (script_steps t path x d w) = [x]"
proof -
  have "texts_read (map (\<lambda>query. Launches (command t query d w)) qs) = []" for qs
    by (induction qs) auto
  then show ?thesis by (simp add: script_steps_def)
qed

lemma texts_read_pipeline: "texts_read (pipeline_steps t base d w x y) = [x, y]"
  by (simp add: pipeline_steps_def provision_steps_def Let_def texts_read_append texts_read_script)

lemma texts_read_comparator: "texts_read (comparator_steps path c d w) = [c]"
proof -
  have "texts_read (concat (map (\<lambda>query. map Launches (both_commands d w query)) qs)) = []" for qs
    by (induction qs) (auto simp: texts_read_append texts_read_launches)
  then show ?thesis by (simp add: comparator_steps_def)
qed

lemma default_run_result:
  "fst (main silent default_run start) = Inr ([], [(''Q1'', 1)])"
  using no_error_in_nothing
  by (simp add: main_def default_run_def silent_def fixtures_def setup_and_execute_def setup_database_def
        execute_sql_scripts_def run_check_sql_def now_def open_read_def andthen_def execute_sql_def
        fetch_query_results_def query_identifier_def match_here_def report_passed_def report_failed_def
        scripted_def says_def start_def Let_def print_def emit_def strip_def isspace_def
        istoken_def isword_def)

lemma default_run_texts:
  "texts_read (steps (since start (snd (main silent default_run start)))) =
     [''CREATE TABLE t(a INT);'', ''INSERT INTO t VALUES (1);'',
      ''CREATE TABLE t(a NUMBER);'', ''INSERT INTO t VALUES (1);'',
      ''-- Q1: rows\<newline>SELECT a FROM t;'']"
  using no_error_in_nothing
  by (simp add: main_def default_run_def silent_def fixtures_def setup_and_execute_def setup_database_def
        execute_sql_scripts_def run_check_sql_def now_def open_read_def andthen_def execute_sql_def
        fetch_query_results_def query_identifier_def match_here_def report_passed_def report_failed_def
        scripted_def says_def start_def Let_def print_def emit_def strip_def isspace_def
        istoken_def isword_def since_def)

theorem run_modes_witness:
  "fst (main silent default_run start) = Inr ([], [(''Q1'', 1)])
   \<and> steps (since start (snd (main silent default_run start))) =
     [Launches (command ''bendsql'' ''DROP DATABASE IF EXISTS db;'' ''default'' None),
      Launches (command ''bendsql'' ''CREATE DATABASE db;'' ''default'' None),
      Reads ''sql/c/bend/setup.sql'' ''CREATE TABLE t(a INT);'',
      Launches (command ''bendsql'' ''CREATE TABLE t(a INT)'' ''db'' None),
      Reads ''sql/c/action.sql'' ''INSERT INTO t VALUES (1);'',
      Launches (command ''bendsql'' ''INSERT INTO t VALUES (1)'' ''db'' None),
      Launches (command ''snowsql'' ''DROP DATABASE IF EXISTS db;'' ''db'' None),
      Launches (command ''snowsql'' ''CREATE DATABASE db;'' ''db'' None),
      Reads ''sql/c/snow/setup.sql'' ''CREATE TABLE t(a NUMBER);'',
      Launches (command ''snowsql'' ''CREATE TABLE t(a NUMBER)'' ''db'' (Some ''wh'')),
      Reads ''sql/c/action.sql'' ''INSERT INTO t VALUES (1);'',
      Launches (command ''snowsql'' ''INSERT INTO t VALUES (1)'' ''db'' (Some ''wh'')),
      Reads ''sql/c/check.sql'' ''-- Q1: rows\<newline>SELECT a FROM t;'',
      Launches (command ''bendsql'' ''-- Q1: rows\<newline>SELECT a FROM t'' ''db'' None),
      Launches (command ''snowsql'' ''-- Q1: rows\<newline>SELECT a FROM t'' ''db'' (Some ''wh''))]"
proof -
  have ev: "main silent default_run start =
              (Inr ([], [(''Q1'', 1)]), snd (main silent default_run start))"
    by (rule prod_eqI) (simp_all add: default_run_result)
  have mode: "\<not> run_check_only default_run \<and> \<not> runbend default_run \<and> \<not> runsnow default_run"
    by (simp add: default_run_def)
  have ms: "mode_steps default_run x y x' y' c =
           pipeline_steps ''bendsql'' (''sql/'' @ test_case default_run) (database default_run) None x y
           @ pipeline_steps ''snowsql'' (''sql/'' @ test_case default_run) (database default_run)
               (Some (warehouse default_run)) x' y'
           @ comparator_steps (''sql/'' @ test_case default_run @ ''/check.sql'') c (database default_run)
               (Some (warehouse default_run))" for x y x' y' c
    using mode by (simp add: mode_steps_def Let_def)
  from run_modes[OF ev] obtain x y x' y' c where
    "steps (since start (snd (main silent default_run start))) = mode_steps default_run x y x' y' c"
    by blast
  then have
    eq: "steps (since start (snd (main silent default_run start))) =
           pipeline_steps ''bendsql'' (''sql/'' @ test_case default_run) (database default_run) None x y
           @ pipeline_steps ''snowsql'' (''sql/'' @ test_case default_run) (database default_run)
               (Some (warehouse default_run)) x' y'
           @ comparator_steps (''sql/'' @ test_case default_run @ ''/check.sql'') c (database default_run)
               (Some (warehouse default_run))"
    by (simp only: ms)
  have "texts_read (steps (since start (snd (main silent default_run start)))) = [x, y, x', y', c]"
    unfolding eq by (simp add: texts_read_append texts_read_pipeline texts_read_comparator)
  with default_run_texts have t: "x = ''CREATE TABLE t(a INT);''" "y = ''INSERT INTO t VALUES (1);''"
      "x' = ''CREATE TABLE t(a NUMBER);''" "y' = ''INSERT INTO t VALUES (1);''"
      "c = ''-- Q1: rows\<newline>SELECT a FROM t;''"
    by simp_all
  have "steps (since start (snd (main silent default_run start))) =
     [Launches (command ''bendsql'' ''DROP DATABASE IF EXISTS db;'' ''default'' None),
      Launches (command ''bendsql'' ''CREATE DATABASE db;'' ''default'' None),
      Reads ''sql/c/bend/setup.sql'' ''CREATE TABLE t(a INT);'',
      Launches (command ''bendsql'' ''CREATE TABLE t(a INT)'' ''db'' None),
      Reads ''sql/c/action.sql'' ''INSERT INTO t VALUES (1);'',
      Launches (command ''bendsql'' ''INSERT INTO t VALUES (1)'' ''db'' None),
      Launches (command ''snowsql'' ''DROP DATABASE IF EXISTS db;'' ''db'' None),
      Launches (command ''snowsql'' ''CREATE DATABASE db;'' ''db'' None),
      Reads ''sql/c/snow/setup.sql'' ''CREATE TABLE t(a NUMBER);'',
      Launches (command ''snowsql'' ''CREATE TABLE t(a NUMBER)'' ''db'' (Some ''wh'')),
      Reads ''sql/c/action.sql'' ''INSERT INTO t VALUES (1);'',
      Launches (command ''snowsql'' ''INSERT INTO t VALUES (1)'' ''db'' (Some ''wh'')),
      Reads ''sql/c/check.sql'' ''-- Q1: rows\<newline>SELECT a FROM t;'',
      Launches (command ''bendsql'' ''-- Q1: rows\<newline>SELECT a FROM t'' ''db'' None),
      Launches (command ''snowsql'' ''-- Q1: rows\<newline>SELECT a FROM t'' ''db'' (Some ''wh''))]"
    unfolding eq t
    by (simp add: pipeline_steps_def provision_steps_def script_steps_def comparator_steps_def
          statements_def both_commands_def strip_def isspace_def default_run_def Let_def)
  with default_run_result show ?thesis by blast
qed

section \<open>The records of the comparison\<close>











section \<open>The order of execution\<close>





end
